theory Spec2Isabelle
  imports Main "HOL-Library.Word" "HOL-Library.Sublist" "HOL-Library.AList"
begin

section \<open>JavaScript values of the upload server\<close>

text \<open>
  The server (the first, more complete variant of the two in the repository: the one with
  \<^verbatim>\<open>handleRequestCancel\<close>) is an Express application over the file system. Its
  request handlers are modelled as functions from the server state to a response and the new
  state. A handler whose loop may not end returns an \<open>option\<close>: \<open>None\<close> is "does not return".

  Numbers. The numeric fields of the init request (\<^verbatim>\<open>fileSize\<close>, \<^verbatim>\<open>chunkSize\<close>) are JSON
  integers, modelled as \<open>int\<close>. What the server computes from them is a JavaScript number,
  which besides an integer can be \<^verbatim>\<open>-0\<close>, \<^verbatim>\<open>NaN\<close>, \<^verbatim>\<open>Infinity\<close> or \<^verbatim>\<open>-Infinity\<close>; these
  special values decide how the loops and comparisons of the handlers behave, so they are
  constructors of \<open>jsnum\<close>. \<open>Num 0\<close> is \<^verbatim>\<open>+0\<close>. Integers are exact (magnitudes below
  \<open>2^53\<close>, where the quotient of two integers rounds to an integer only when it is one).
\<close>

type_synonym bytes = "8 word list"

datatype jsnum = Num int | NegZero | NaN | PosInf | NegInf

text \<open>\<^verbatim>\<open>Math.ceil(fileSize / chunkSize)\<close> on integers.\<close>

definition js_ceil_div :: "int \<Rightarrow> int \<Rightarrow> jsnum" where
  "js_ceil_div a b =
     (if b = 0 then (if a = 0 then NaN else if 0 < a then PosInf else NegInf)
      else (let q = - ((- a) div b) in
            if q \<noteq> 0 then Num q
            else if a = 0 \<and> 0 < b then Num 0
            else NegZero))"

text \<open>\<^verbatim>\<open>i < totalChunks\<close> and \<^verbatim>\<open>currentChunk >= totalChunks\<close> for a loop counter \<open>i\<close>
  that starts at 0 and is incremented by one.\<close>

fun js_lt_nat :: "nat \<Rightarrow> jsnum \<Rightarrow> bool" where
  "js_lt_nat i (Num t) = (int i < t)"
| "js_lt_nat i NegZero = False"
| "js_lt_nat i NaN = False"
| "js_lt_nat i PosInf = True"
| "js_lt_nat i NegInf = False"

fun js_ge_nat :: "nat \<Rightarrow> jsnum \<Rightarrow> bool" where
  "js_ge_nat i (Num t) = (t \<le> int i)"
| "js_ge_nat i NegZero = True"
| "js_ge_nat i NaN = False"
| "js_ge_nat i PosInf = False"
| "js_ge_nat i NegInf = True"

text \<open>\<^verbatim>\<open>Array.prototype.includes\<close> and \<^verbatim>\<open>Set.prototype.has\<close> compare with SameValueZero:
  \<^verbatim>\<open>NaN\<close> equals itself and the two zeros are equal.\<close>

fun same_value_zero :: "jsnum \<Rightarrow> jsnum \<Rightarrow> bool" where
  "same_value_zero (Num a) (Num b) = (a = b)"
| "same_value_zero (Num a) NegZero = (a = 0)"
| "same_value_zero NegZero (Num b) = (b = 0)"
| "same_value_zero NegZero NegZero = True"
| "same_value_zero NaN NaN = True"
| "same_value_zero PosInf PosInf = True"
| "same_value_zero NegInf NegInf = True"
| "same_value_zero _ _ = False"

definition js_includes :: "jsnum list \<Rightarrow> jsnum \<Rightarrow> bool" where
  "js_includes xs v = list_ex (\<lambda>x. same_value_zero x v) xs"

text \<open>The template literal \<^verbatim>\<open>`${i}.part`\<close> renders the loop counter in decimal.\<close>

definition digit_char :: "nat \<Rightarrow> char" where
  "digit_char d = ''0123456789'' ! d"

fun show_nat :: "nat \<Rightarrow> string" where
  "show_nat n = (if n < 10 then [digit_char n] else show_nat (n div 10) @ [digit_char (n mod 10)])"

declare show_nat.simps [simp del]

definition part_name :: "string \<Rightarrow> string" where
  "part_name idx = idx @ ''.part''"

text \<open>
  \<^verbatim>\<open>parseInt(chunkIndex)\<close> with no radix, on the bytes of an ASCII string: leading white
  space is skipped, a sign is read, a \<^verbatim>\<open>0x\<close> prefix selects radix 16, and the longest
  prefix of digits is the value; no digit gives \<^verbatim>\<open>NaN\<close>, and a negative zero is \<^verbatim>\<open>-0\<close>.
\<close>

definition is_js_space :: "char \<Rightarrow> bool" where
  "is_js_space c = (of_char c \<in> {9, 10, 11, 12, 13, 32 :: nat})"

definition digit_of :: "nat \<Rightarrow> char \<Rightarrow> nat option" where
  "digit_of radix c =
     (let k = (of_char c :: nat);
          d = (if 48 \<le> k \<and> k \<le> 57 then Some (k - 48)
               else if 97 \<le> k \<and> k \<le> 122 then Some (k - 87)
               else if 65 \<le> k \<and> k \<le> 90 then Some (k - 55)
               else None)
      in case d of None \<Rightarrow> None | Some v \<Rightarrow> if v < radix then Some v else None)"

definition parseInt :: "string \<Rightarrow> jsnum" where
  "parseInt str =
     (let s = dropWhile is_js_space str;
          neg = (take 1 s = ''-'');
          s1 = (if take 1 s = ''-'' \<or> take 1 s = ''+'' then drop 1 s else s);
          hex = (take 2 s1 = ''0x'' \<or> take 2 s1 = ''0X'');
          s2 = (if hex then drop 2 s1 else s1);
          radix = (if hex then 16 else 10);
          z = takeWhile (\<lambda>c. digit_of radix c \<noteq> None) s2;
          m = foldl (\<lambda>a c. case digit_of radix c of None \<Rightarrow> a | Some d \<Rightarrow> a * radix + d) 0 z
      in if z = [] then NaN
         else if m = 0 then (if neg then NegZero else Num 0)
         else Num (if neg then - int m else int m))"

section \<open>The server state\<close>

text \<open>
  \<^verbatim>\<open>uploadStatus\<close> maps an upload id to its session record. The file system is the part of
  it the handlers touch: the files multer stores directly under \<^verbatim>\<open>TEMP_DIR\<close> (keyed by
  \<^verbatim>\<open>req.file.path\<close>), the session directories \<^verbatim>\<open>TEMP_DIR/<uploadId>\<close> with their files, and
  \<^verbatim>\<open>UPLOAD_DIR\<close> as the list \<^verbatim>\<open>readdirSync\<close> returns, each name with its bytes. The two
  root directories are created at start-up and nothing in the program removes them. Names are
  single path segments. A file-system call can fail for reasons outside the state; where the
  source handles the failure (a \<^verbatim>\<open>try\<close>/\<^verbatim>\<open>catch\<close>, an \<^verbatim>\<open>'error'\<close> listener) the handler
  takes the failure as an argument.
\<close>

record upload_session =
  fileName :: string
  fileSize :: int
  chunkSize :: int
  fileHash :: string
  totalChunks :: jsnum
  uploadedChunks :: "jsnum list"

record server =
  uploadStatus :: "string \<rightharpoonup> upload_session"
  tempFiles :: "string \<rightharpoonup> bytes"
  tempDirs :: "string \<rightharpoonup> (string \<rightharpoonup> bytes)"
  uploads :: "(string \<times> bytes) list"

datatype merge_error =
    TempDirMissing
  | ChunkMissing nat
  | ReadStreamError
  | WriteStreamError
  | RemoveFailed

datatype response =
    InitExists string
  | InitCreated string
  | InitFailed
  | SessionNotFound
  | ChunkOk
  | ChunkFailed
  | MissingChunks "nat list"
  | MergeOk string
  | MergeFailed merge_error
  | Progress jsnum "jsnum list" jsnum "nat list"

text \<open>\<^verbatim>\<open>path.join(UPLOAD_DIR, file)\<close>, relative to the directory of the server.\<close>

definition upload_path :: "string \<Rightarrow> string" where
  "upload_path f = ''uploads/'' @ f"

text \<open>\<^verbatim>\<open>fs.mkdirSync(dir, { recursive: true })\<close> and \<^verbatim>\<open>ensureDir\<close>: nothing happens to a
  directory that exists.\<close>

definition ensureDir :: "(string \<rightharpoonup> (string \<rightharpoonup> bytes)) \<Rightarrow> string \<Rightarrow> (string \<rightharpoonup> (string \<rightharpoonup> bytes))" where
  "ensureDir dirs d = (case dirs d of None \<Rightarrow> dirs(d \<mapsto> Map.empty) | Some _ \<Rightarrow> dirs)"

section \<open>InitUpload\<close>

text \<open>\<^verbatim>\<open>checkFileExists\<close>: the first name of the listing that starts with the hash; \<open>None\<close> is
  the source's \<^verbatim>\<open>false\<close>.\<close>

definition checkFileExists :: "(string \<times> bytes) list \<Rightarrow> string \<Rightarrow> string option" where
  "checkFileExists dir h =
     (case find (\<lambda>f. prefix h f) (map fst dir) of
        None \<Rightarrow> None
      | Some f \<Rightarrow> Some (upload_path f))"

text \<open>The handler of \<^verbatim>\<open>POST /api/upload/init\<close>. \<open>uuid\<close> is what \<^verbatim>\<open>uuidv4()\<close> returns, and
  \<open>mkdir_fails\<close> says whether \<^verbatim>\<open>mkdirSync\<close> throws.\<close>

definition init_upload ::
  "server \<Rightarrow> string \<Rightarrow> int \<Rightarrow> int \<Rightarrow> string \<Rightarrow> string \<Rightarrow> bool \<Rightarrow> response \<times> server" where
  "init_upload s fname fsize csize fhash uuid mkdir_fails =
     (case checkFileExists (uploads s) fhash of
        Some existingFile \<Rightarrow> (InitExists existingFile, s)
      | None \<Rightarrow>
          if mkdir_fails then (InitFailed, s)
          else (InitCreated uuid,
                s\<lparr>tempDirs := ensureDir (tempDirs s) uuid,
                  uploadStatus := (uploadStatus s)(uuid \<mapsto>
                    \<lparr>fileName = fname, fileSize = fsize, chunkSize = csize, fileHash = fhash,
                     totalChunks = js_ceil_div fsize csize, uploadedChunks = []\<rparr>)\<rparr>))"

section \<open>ReceiveChunk and request cancellation\<close>

text \<open>
  \<^verbatim>\<open>handleRequestCancel(req)\<close>: \<open>file\<close> is \<^verbatim>\<open>req.file.path\<close> (\<open>None\<close> when the request has no
  file), \<open>uid\<close> is \<^verbatim>\<open>req.body.uploadId\<close>. The two flags say whether \<^verbatim>\<open>unlinkSync\<close> and
  \<^verbatim>\<open>rmSync\<close> throw; both are caught, and the second skips the \<^verbatim>\<open>delete\<close> that follows it.
\<close>

definition handleRequestCancel ::
  "server \<Rightarrow> string option \<Rightarrow> string \<Rightarrow> bool \<Rightarrow> bool \<Rightarrow> server" where
  "handleRequestCancel s file uid unlink_fails rm_fails =
     (let s1 = (case file of
                  None \<Rightarrow> s
                | Some p \<Rightarrow>
                    if tempFiles s p \<noteq> None \<and> \<not> unlink_fails
                    then s\<lparr>tempFiles := (tempFiles s)(p := None)\<rparr>
                    else s)
      in if uid \<noteq> [] \<and> uploadStatus s1 uid \<noteq> None then
           (if tempDirs s1 uid \<noteq> None then
              (if rm_fails then s1
               else s1\<lparr>tempDirs := (tempDirs s1)(uid := None),
                       uploadStatus := (uploadStatus s1)(uid := None)\<rparr>)
            else s1\<lparr>uploadStatus := (uploadStatus s1)(uid := None)\<rparr>)
         else s1)"

text \<open>multer's \<^verbatim>\<open>upload.single('file')\<close> runs before the handler and stores the received
  bytes under a name of its own in \<^verbatim>\<open>TEMP_DIR\<close>.\<close>

definition multer_single :: "server \<Rightarrow> string \<Rightarrow> bytes \<Rightarrow> server" where
  "multer_single s p data = s\<lparr>tempFiles := (tempFiles s)(p \<mapsto> data)\<rparr>"

text \<open>
  The handler of \<^verbatim>\<open>POST /api/upload/chunk\<close>. \<^verbatim>\<open>renameSync\<close> throws when the request has no
  file, when the source file or the session directory does not exist, or when the file system
  refuses (\<open>rename_fails\<close>); the \<^verbatim>\<open>catch\<close> then calls \<^verbatim>\<open>handleRequestCancel\<close>. Otherwise the
  file becomes \<^verbatim>\<open>`${chunkIndex}.part`\<close> of the session directory and \<^verbatim>\<open>parseInt(chunkIndex)\<close>
  is recorded unless \<^verbatim>\<open>includes\<close> finds it.
\<close>

definition upload_chunk ::
  "server \<Rightarrow> string \<Rightarrow> string \<Rightarrow> string option \<Rightarrow> bool \<Rightarrow> bool \<Rightarrow> bool \<Rightarrow> response \<times> server" where
  "upload_chunk s uid chunkIndex file rename_fails unlink_fails rm_fails =
     (case uploadStatus s uid of
        None \<Rightarrow> (SessionNotFound, s)
      | Some status \<Rightarrow>
          (case (file, tempDirs s uid) of
             (Some p, Some dir) \<Rightarrow>
               (case tempFiles s p of
                  Some data \<Rightarrow>
                    if rename_fails
                    then (ChunkFailed, handleRequestCancel s file uid unlink_fails rm_fails)
                    else
                      (let chunkIndexInt = parseInt chunkIndex;
                           status' = (if js_includes (uploadedChunks status) chunkIndexInt
                                      then status
                                      else status\<lparr>uploadedChunks :=
                                             uploadedChunks status @ [chunkIndexInt]\<rparr>)
                       in (ChunkOk,
                           s\<lparr>tempFiles := (tempFiles s)(p := None),
                             tempDirs := (tempDirs s)(uid \<mapsto> dir(part_name chunkIndex \<mapsto> data)),
                             uploadStatus := (uploadStatus s)(uid \<mapsto> status')\<rparr>))
                | None \<Rightarrow> (ChunkFailed, handleRequestCancel s file uid unlink_fails rm_fails))
           | _ \<Rightarrow> (ChunkFailed, handleRequestCancel s file uid unlink_fails rm_fails)))"

text \<open>
  The listener the handler registers for the \<^verbatim>\<open>'close'\<close> event of the request, once it has
  found the session. \<open>res\<close> is the response sent so far: \<open>None\<close> is
  \<^verbatim>\<open>!res.headersSent\<close>, the only case in which the listener calls \<^verbatim>\<open>handleRequestCancel\<close>.
\<close>

definition close_listener ::
  "response option \<Rightarrow> server \<Rightarrow> string option \<Rightarrow> string \<Rightarrow> bool \<Rightarrow> bool \<Rightarrow> server" where
  "close_listener res s file uid unlink_fails rm_fails =
     (case res of
        None \<Rightarrow> handleRequestCancel s file uid unlink_fails rm_fails
      | Some _ \<Rightarrow> s)"

section \<open>MergeUpload and the merge engine\<close>

text \<open>
  The loop \<^verbatim>\<open>for (let i = 0; i < status.totalChunks; i++) if (...) list.push(i)\<close> of the
  merge and progress handlers. With \<^verbatim>\<open>totalChunks = Infinity\<close> it does not end.
\<close>

partial_function (option) push_loop ::
  "(nat \<Rightarrow> bool) \<Rightarrow> jsnum \<Rightarrow> nat \<Rightarrow> nat list \<Rightarrow> nat list option" where
  "push_loop cond tot i acc =
     (if js_lt_nat i tot
      then push_loop cond tot (Suc i) (if cond i then acc @ [i] else acc)
      else Some acc)"

text \<open>A file of a session directory by its name: \<^verbatim>\<open>fs.existsSync(path.join(tempDir, name))\<close>
  is false when the directory itself does not exist.\<close>

definition file_in :: "(string \<rightharpoonup> (string \<rightharpoonup> bytes)) \<Rightarrow> string \<Rightarrow> string \<Rightarrow> bytes option" where
  "file_in dirs d name = (case dirs d of None \<Rightarrow> None | Some dir \<Rightarrow> dir name)"

definition missingFiles ::
  "(string \<rightharpoonup> (string \<rightharpoonup> bytes)) \<Rightarrow> string \<Rightarrow> jsnum \<Rightarrow> nat list option" where
  "missingFiles dirs tempDir tot =
     push_loop (\<lambda>i. file_in dirs tempDir (part_name (show_nat i)) = None) tot 0 []"

text \<open>
  What can go wrong with the streams of one merge: the output file cannot be opened, the output
  stream fails once \<open>k\<close> bytes have reached the file, or reading chunk \<open>i\<close> fails after \<open>k\<close>
  of its bytes. The streams are asynchronous in the source; the model runs them in the order
  the source starts them, one chunk fully handed to the output stream before the next is read
  (the \<^verbatim>\<open>'end'\<close> listener).

  What the merge answers to a failed write depends on when the \<^verbatim>\<open>'error'\<close> event reaches the
  listener. A read stream hands a chunk over in pieces of \<open>highWaterMark\<close> bytes (Node's
  default for a file, which the source does not change), each piece one write of the output
  stream, and a file stream emits \<^verbatim>\<open>'error'\<close> only once it has closed its descriptor: later
  than the next step of the reading side, which was started together with the write. After the
  write of the last piece of a chunk that step is the chunk's \<^verbatim>\<open>'end'\<close>. So a failure that
  meets the last piece of the last chunk is emitted after \<^verbatim>\<open>writeStream.end(); resolve()\<close>,
  when the promise is settled and the \<^verbatim>\<open>reject\<close> of the listener has no effect; a failure
  that meets an earlier chunk is emitted while a later chunk is piped; and a failure that meets
  a piece that is not the last of its chunk is emitted before the \<^verbatim>\<open>'end'\<close> of that chunk or
  after it, which the second argument of \<open>WriteFailsAfter\<close> says (\<open>True\<close>: before).
\<close>

datatype stream_fault =
    NoFault
  | OpenFails
  | WriteFailsAfter nat bool
  | ReadFails nat nat

definition highWaterMark :: nat where
  "highWaterMark = 65536"

text \<open>Whether the byte at offset \<open>off\<close> of a chunk of \<open>n\<close> bytes lies in a piece that is not
  the last piece of the chunk.\<close>

definition before_last_piece :: "nat \<Rightarrow> nat \<Rightarrow> bool" where
  "before_last_piece off n = (off div highWaterMark < (n - 1) div highWaterMark)"

text \<open>What the output file holds when the engine stops with \<open>written\<close> handed to the
  stream; \<open>None\<close> is a file that was never created.\<close>

fun file_after :: "stream_fault \<Rightarrow> bytes \<Rightarrow> bytes option" where
  "file_after OpenFails written = None"
| "file_after (WriteFailsAfter k early) written = Some (take k written)"
| "file_after _ written = Some written"

text \<open>
  \<^verbatim>\<open>writeNextChunk\<close>, with the bytes handed to the output stream so far. The result is how
  the promise settles (\<open>Inr ()\<close> is \<^verbatim>\<open>resolve()\<close>) and what the output file holds
  afterwards. The checks come in the source's order: the end of the loop and a missing chunk
  are found synchronously, before the \<^verbatim>\<open>'error'\<close> of a failed open or of a failed write can
  be emitted; the failure of a write is heard while a chunk is piped when it met the bytes of
  an earlier chunk, or an earlier piece of this one.
\<close>

partial_function (option) writeNextChunk ::
  "(string \<rightharpoonup> bytes) \<Rightarrow> jsnum \<Rightarrow> stream_fault \<Rightarrow> nat \<Rightarrow> bytes
     \<Rightarrow> ((merge_error + unit) \<times> bytes option) option" where
  "writeNextChunk dir tot fault currentChunk written =
     (if js_ge_nat currentChunk tot
      then Some (Inr (), file_after fault written)
      else
        (case dir (part_name (show_nat currentChunk)) of
           None \<Rightarrow>
             Some (Inl (ChunkMissing currentChunk), file_after fault written)
         | Some data \<Rightarrow>
             (case fault of
                OpenFails \<Rightarrow> Some (Inl WriteStreamError, None)
              | ReadFails i k \<Rightarrow>
                  if i = currentChunk
                  then Some (Inl ReadStreamError, Some (written @ take k data))
                  else writeNextChunk dir tot fault (Suc currentChunk) (written @ data)
              | WriteFailsAfter k early \<Rightarrow>
                  if k < length written
                     \<or> (early \<and> before_last_piece (k - length written) (length data))
                  then Some (Inl WriteStreamError, Some (take k (written @ data)))
                  else writeNextChunk dir tot fault (Suc currentChunk) (written @ data)
              | NoFault \<Rightarrow> writeNextChunk dir tot fault (Suc currentChunk) (written @ data))))"

definition mergeChunks ::
  "(string \<rightharpoonup> (string \<rightharpoonup> bytes)) \<Rightarrow> string \<Rightarrow> jsnum \<Rightarrow> stream_fault
     \<Rightarrow> ((merge_error + unit) \<times> bytes option) option" where
  "mergeChunks dirs tempDir tot fault =
     (case dirs tempDir of
        None \<Rightarrow> Some (Inl TempDirMissing, None)
      | Some dir \<Rightarrow> writeNextChunk dir tot fault 0 [])"

text \<open>\<^verbatim>\<open>fs.createWriteStream(filePath)\<close> truncates a file that exists and creates one that does
  not (listed last here; no theorem below depends on its position).\<close>

definition write_output :: "(string \<times> bytes) list \<Rightarrow> string \<Rightarrow> bytes option \<Rightarrow> (string \<times> bytes) list" where
  "write_output dir f out = (case out of None \<Rightarrow> dir | Some bs \<Rightarrow> AList.update f bs dir)"

text \<open>
  The handler of \<^verbatim>\<open>POST /api/upload/merge\<close>. \<open>extname\<close> is Node's \<^verbatim>\<open>path.extname\<close>,
  \<open>fault\<close> the fate of the streams and \<open>rm_fails\<close> whether the final \<^verbatim>\<open>rmSync\<close> throws.
\<close>

definition merge_upload ::
  "(string \<Rightarrow> string) \<Rightarrow> server \<Rightarrow> string \<Rightarrow> string \<Rightarrow> string \<Rightarrow> stream_fault \<Rightarrow> bool
     \<Rightarrow> (response \<times> server) option" where
  "merge_upload extname s uid fname fhash fault rm_fails =
     (case uploadStatus s uid of
        None \<Rightarrow> Some (SessionNotFound, s)
      | Some status \<Rightarrow>
          (let s1 = s\<lparr>tempDirs := ensureDir (tempDirs s) uid\<rparr> in
           case missingFiles (tempDirs s1) uid (totalChunks status) of
             None \<Rightarrow> None
           | Some missing \<Rightarrow>
               if missing \<noteq> [] then Some (MissingChunks missing, s1)
               else
                 (let finalFileName = fhash @ extname fname in
                  case mergeChunks (tempDirs s1) uid (totalChunks status) fault of
                    None \<Rightarrow> None
                  | Some (res, out) \<Rightarrow>
                      (let s2 = s1\<lparr>uploads := write_output (uploads s1) finalFileName out\<rparr> in
                       case res of
                         Inl e \<Rightarrow> Some (MergeFailed e, s2)
                       | Inr _ \<Rightarrow>
                           if tempDirs s2 uid \<noteq> None then
                             (if rm_fails then Some (MergeFailed RemoveFailed, s2)
                              else Some (MergeOk finalFileName,
                                         s2\<lparr>tempDirs := (tempDirs s2)(uid := None),
                                            uploadStatus := (uploadStatus s2)(uid := None)\<rparr>))
                           else Some (MergeOk finalFileName, s2)))))"

section \<open>GetProgress\<close>

text \<open>
  \<^verbatim>\<open>Math.round((status.uploadedChunks.length / status.totalChunks) * 100)\<close>. For a finite
  non-zero \<^verbatim>\<open>totalChunks\<close> the value is the floating-point computation \<open>fp\<close> of the
  quotient, the product and the rounding, which is a parameter here. The cases written out
  are the ones where IEEE arithmetic leaves the finite numbers: a division by a zero, by
  \<^verbatim>\<open>NaN\<close> or by an infinity.
\<close>

definition progress_value :: "(nat \<Rightarrow> int \<Rightarrow> jsnum) \<Rightarrow> nat \<Rightarrow> jsnum \<Rightarrow> jsnum" where
  "progress_value fp len tot =
     (case tot of
        Num t \<Rightarrow> if t = 0 then (if len = 0 then NaN else PosInf) else fp len t
      | NegZero \<Rightarrow> if len = 0 then NaN else NegInf
      | NaN \<Rightarrow> NaN
      | PosInf \<Rightarrow> Num 0
      | NegInf \<Rightarrow> NegZero)"

text \<open>\<^verbatim>\<open>res.json\<close> writes a number with \<^verbatim>\<open>JSON.stringify\<close>: \<^verbatim>\<open>NaN\<close> and the infinities
  become \<^verbatim>\<open>null\<close> (\<open>None\<close>), \<^verbatim>\<open>-0\<close> becomes \<^verbatim>\<open>0\<close>.\<close>

fun json_number :: "jsnum \<Rightarrow> int option" where
  "json_number (Num n) = Some n"
| "json_number NegZero = Some 0"
| "json_number NaN = None"
| "json_number PosInf = None"
| "json_number NegInf = None"

text \<open>The handler of \<^verbatim>\<open>GET /api/upload/progress\<close>.\<close>

definition upload_progress :: "(nat \<Rightarrow> int \<Rightarrow> jsnum) \<Rightarrow> server \<Rightarrow> string \<Rightarrow> response option" where
  "upload_progress fp s uid =
     (case uploadStatus s uid of
        None \<Rightarrow> Some SessionNotFound
      | Some status \<Rightarrow>
          (case push_loop (\<lambda>i. \<not> js_includes (uploadedChunks status) (Num (int i)))
                  (totalChunks status) 0 [] of
             None \<Rightarrow> None
           | Some missingChunks \<Rightarrow>
               Some (Progress (progress_value fp (length (uploadedChunks status)) (totalChunks status))
                       (uploadedChunks status) (totalChunks status) missingChunks)))"

section \<open>Sequences of requests\<close>

text \<open>
  One request to the server, with what the environment decides for it. A chunk request carries
  the multipart file as multer stored it (its path and bytes), if it has one. Each request is
  served in one step: a merge, which is asynchronous in the source, is not interleaved with the
  requests that arrive while it runs.

  A chunk request whose connection is dropped comes in two kinds. \<open>AbortReq\<close>: the connection
  closes while the body is still arriving. The request is then with multer, which does not
  call the handler; what multer leaves of its temporary file is not decided by the source and
  is the argument. \<open>CancelReq\<close>: the connection closes once multer has the whole body. The
  handler runs as for \<open>ChunkReq\<close>. It is synchronous and sends a response on each of its
  paths, and an event is delivered only between two runs of the event loop, so the
  \<^verbatim>\<open>'close'\<close> listener, when the handler has registered it, runs after the handler has
  returned and finds the response sent.
\<close>

datatype request =
    InitReq string int int string string bool
  | ChunkReq string string "(string \<times> bytes) option" bool bool bool
  | CancelReq string string "(string \<times> bytes) option" bool bool bool
  | AbortReq "(string \<times> bytes) option"
  | MergeReq string string string stream_fault bool
  | ProgressReq string

definition stored :: "server \<Rightarrow> (string \<times> bytes) option \<Rightarrow> server" where
  "stored s file = (case file of None \<Rightarrow> s | Some (p, data) \<Rightarrow> multer_single s p data)"

fun serve ::
  "(string \<Rightarrow> string) \<Rightarrow> (nat \<Rightarrow> int \<Rightarrow> jsnum) \<Rightarrow> server \<Rightarrow> request
     \<Rightarrow> (response option \<times> server) option" where
  "serve extname fp s (InitReq fname fsize csize fhash uuid mkdir_fails) =
     (let (r, s') = init_upload s fname fsize csize fhash uuid mkdir_fails in Some (Some r, s'))"
| "serve extname fp s (ChunkReq uid chunkIndex file rename_fails unlink_fails rm_fails) =
     (let (r, s') = upload_chunk (stored s file) uid chunkIndex (map_option fst file)
                      rename_fails unlink_fails rm_fails
      in Some (Some r, s'))"
| "serve extname fp s (CancelReq uid chunkIndex file rename_fails unlink_fails rm_fails) =
     (let (r, s') = upload_chunk (stored s file) uid chunkIndex (map_option fst file)
                      rename_fails unlink_fails rm_fails
      in Some (Some r,
               case uploadStatus (stored s file) uid of
                 None \<Rightarrow> s'
               | Some _ \<Rightarrow>
                   close_listener (Some r) s' (map_option fst file) uid unlink_fails rm_fails))"
| "serve extname fp s (AbortReq left) = Some (None, stored s left)"
| "serve extname fp s (MergeReq uid fname fhash fault rm_fails) =
     (case merge_upload extname s uid fname fhash fault rm_fails of
        None \<Rightarrow> None
      | Some (r, s') \<Rightarrow> Some (Some r, s'))"
| "serve extname fp s (ProgressReq uid) =
     (case upload_progress fp s uid of None \<Rightarrow> None | Some r \<Rightarrow> Some (Some r, s))"

fun run ::
  "(string \<Rightarrow> string) \<Rightarrow> (nat \<Rightarrow> int \<Rightarrow> jsnum) \<Rightarrow> server \<Rightarrow> request list \<Rightarrow> server option" where
  "run extname fp s [] = Some s"
| "run extname fp s (r # rs) =
     (case serve extname fp s r of None \<Rightarrow> None | Some (_, s') \<Rightarrow> run extname fp s' rs)"

text \<open>\<^verbatim>\<open>fs.existsSync(chunkPath)\<close> for chunk \<open>i\<close> of a session, and its bytes: what the staging
  area holds on disk, whatever \<^verbatim>\<open>uploadedChunks\<close> says.\<close>

definition chunk_file :: "server \<Rightarrow> string \<Rightarrow> nat \<Rightarrow> bytes option" where
  "chunk_file s uid i = file_in (tempDirs s) uid (part_name (show_nat i))"

text \<open>The chunk requests a client sends for a list of indices: the index in decimal, the
  bytes \<open>content i\<close>, stored by multer as \<open>path i\<close>, and no failure of the file system.\<close>

definition chunk_requests ::
  "string \<Rightarrow> (nat \<Rightarrow> string) \<Rightarrow> (nat \<Rightarrow> bytes) \<Rightarrow> nat list \<Rightarrow> request list" where
  "chunk_requests uid path content idxs =
     map (\<lambda>i. ChunkReq uid (show_nat i) (Some (path i, content i)) False False False) idxs"

definition empty_server :: server where
  "empty_server = \<lparr>uploadStatus = Map.empty, tempFiles = Map.empty, tempDirs = Map.empty, uploads = []\<rparr>"

text \<open>
  The invariant of the data model: the recorded indices of a session are integers of
  \<open>[0, totalChunks)\<close>, each recorded once.
\<close>

fun index_in_range :: "jsnum \<Rightarrow> jsnum \<Rightarrow> bool" where
  "index_in_range (Num k) tot = (0 \<le> k \<and> js_lt_nat (nat k) tot)"
| "index_in_range _ tot = False"

definition session_inv :: "upload_session \<Rightarrow> bool" where
  "session_inv st =
     (distinct (uploadedChunks st) \<and> list_all (\<lambda>v. index_in_range v (totalChunks st)) (uploadedChunks st))"

definition server_inv :: "server \<Rightarrow> bool" where
  "server_inv s = (\<forall>uid st. uploadStatus s uid = Some st \<longrightarrow> session_inv st)"

text \<open>A run in which every chunk request for a registered session that reaches the handler
  carries an index of that session's range, checked against the state the request meets.\<close>

fun indices_in_range ::
  "(string \<Rightarrow> string) \<Rightarrow> (nat \<Rightarrow> int \<Rightarrow> jsnum) \<Rightarrow> server \<Rightarrow> request list \<Rightarrow> bool" where
  "indices_in_range extname fp s [] = True"
| "indices_in_range extname fp s (r # rs) =
     ((case r of
         ChunkReq uid chunkIndex file rf uf rmf \<Rightarrow>
           (case uploadStatus s uid of
              None \<Rightarrow> True
            | Some st \<Rightarrow> index_in_range (parseInt chunkIndex) (totalChunks st))
       | CancelReq uid chunkIndex file rf uf rmf \<Rightarrow>
           (case uploadStatus s uid of
              None \<Rightarrow> True
            | Some st \<Rightarrow> index_in_range (parseInt chunkIndex) (totalChunks st))
       | _ \<Rightarrow> True)
      \<and> (case serve extname fp s r of
            None \<Rightarrow> True
          | Some (_, s') \<Rightarrow> indices_in_range extname fp s' rs))"

section \<open>The client scheduler\<close>

text \<open>
  \<^verbatim>\<open>BigFileUploader\<close> runs on a single-threaded event loop: a method runs until it reaches an
  \<^verbatim>\<open>await\<close> and is resumed later, when the awaited request settles. The state holds the
  fields of the object the scheduler reads and writes, the suspended invocations
  (\<open>transfers\<close>: each \<^verbatim>\<open>_uploadChunks\<close> invocation waiting in \<^verbatim>\<open>await this._uploadChunk(chunk)\<close>,
  with the controller \<^verbatim>\<open>_uploadChunk\<close> created for it, its chunk and what is left of its own
  \<^verbatim>\<open>chunksToUpload\<close>; \<open>inits\<close>: each \<^verbatim>\<open>_initUploadSession\<close> waiting for the init or the progress
  reply, with whether \<^verbatim>\<open>start()\<close> calls \<^verbatim>\<open>_uploadChunks\<close> after it; \<open>merges\<close>: the merge requests
  under way), the controllers on which \<^verbatim>\<open>abort()\<close> was called, and the callbacks made so far.
  An event is a call of \<^verbatim>\<open>start()\<close> or \<^verbatim>\<open>pause()\<close>, or a request that settles; the step
  function runs the continuation up to its next \<^verbatim>\<open>await\<close>. The file hash touches none of
  these fields and is left out; \<open>chunks\<close> are the indices \<^verbatim>\<open>_prepareChunks\<close> produced, and
  \<open>uploaded\<close> is \<^verbatim>\<open>this.uploadedChunks\<close> (the entries that are chunk indices: no other entry
  can match a chunk).

  The reply to the init request is an exception (\<open>InitThrows\<close>) or a response with its
  \<^verbatim>\<open>uploadId\<close> and whether its message is the one of a dedup hit; the reply to the progress
  request is an exception (\<open>None\<close>) or the \<^verbatim>\<open>uploadedChunks\<close> of the response. A transfer is
  named by its controller; it can settle as \<open>Aborted\<close> only once its controller has been
  aborted.
\<close>

datatype outcome = Succeeded | Failed | Aborted

datatype client_error = InitError | ProgressError | ChunkError nat

datatype callback = OnProgress | OnSuccess | OnError client_error

datatype init_stage = AwaitInit | AwaitProgress

datatype init_reply = InitThrows | InitResponse "string option" bool

record transfer =
  ctrl :: nat
  chunk :: nat
  pending :: "nat list"

record uploader =
  chunks :: "nat list"
  uploaded :: "nat list"
  activeConnections :: int
  concurrent :: int
  paused :: bool
  uploadId :: "string option"
  abortController :: "nat option"
  controllers :: nat
  aborted :: "nat list"
  transfers :: "transfer list"
  inits :: "(init_stage \<times> bool) list"
  merges :: nat
  callbacks :: "callback list"

text \<open>The constructor: \<^verbatim>\<open>options.concurrent || 3\<close>.\<close>

definition new_uploader :: "nat list \<Rightarrow> int option \<Rightarrow> uploader" where
  "new_uploader cs conc =
     \<lparr>chunks = cs, uploaded = [], activeConnections = 0,
      concurrent = (case conc of None \<Rightarrow> 3 | Some c \<Rightarrow> if c = 0 then 3 else c),
      paused = False, uploadId = None, abortController = None, controllers = 0,
      aborted = [], transfers = [], inits = [], merges = 0, callbacks = []\<rparr>"

text \<open>\<^verbatim>\<open>!this.uploadId\<close>: \<^verbatim>\<open>null\<close> and the empty string are falsy.\<close>

definition no_id :: "string option \<Rightarrow> bool" where
  "no_id u = (u = None \<or> u = Some [])"

text \<open>\<^verbatim>\<open>_uploadChunk(chunk)\<close> up to its \<^verbatim>\<open>fetch\<close>: a new controller replaces
  \<^verbatim>\<open>this.abortController\<close>, and the invocation that called it waits (\<open>todo\<close> is what that
  invocation has left to upload).\<close>

definition uploadChunk :: "uploader \<Rightarrow> nat \<Rightarrow> nat list \<Rightarrow> uploader" where
  "uploadChunk u c todo =
     u\<lparr>abortController := Some (controllers u),
       controllers := Suc (controllers u),
       transfers := transfers u @ [\<lparr>ctrl = controllers u, chunk = c, pending = todo\<rparr>]\<rparr>"

text \<open>\<^verbatim>\<open>_mergeFile()\<close> up to its \<^verbatim>\<open>fetch\<close>.\<close>

definition mergeFile :: "uploader \<Rightarrow> uploader" where
  "mergeFile u = u\<lparr>merges := Suc (merges u)\<rparr>"

text \<open>The \<^verbatim>\<open>while\<close> loop of \<^verbatim>\<open>_uploadChunks\<close> from its condition to the next \<^verbatim>\<open>await\<close> (or
  to where it ends): \<^verbatim>\<open>chunksToUpload.shift()\<close> takes the first chunk left, and
  \<^verbatim>\<open>this.activeConnections++\<close> comes before the call of \<^verbatim>\<open>_uploadChunk\<close>.\<close>

definition upload_loop :: "uploader \<Rightarrow> nat list \<Rightarrow> uploader" where
  "upload_loop u todo =
     (if activeConnections u < concurrent u \<and> todo \<noteq> [] then
        (if paused u then u
         else uploadChunk (u\<lparr>activeConnections := activeConnections u + 1\<rparr>) (hd todo) (tl todo))
      else u)"

text \<open>\<^verbatim>\<open>_uploadChunks()\<close> from its entry to its first \<^verbatim>\<open>await\<close>.\<close>

definition uploadChunks :: "uploader \<Rightarrow> uploader" where
  "uploadChunks u =
     (if paused u then u
      else (let chunksToUpload = filter (\<lambda>c. c \<notin> set (uploaded u)) (chunks u) in
            if chunksToUpload = [] then mergeFile u
            else upload_loop u chunksToUpload))"

text \<open>
  The continuation of \<^verbatim>\<open>await this._uploadChunk(chunk)\<close> in the loop. \<open>Succeeded\<close> is a
  response with \<^verbatim>\<open>ok\<close>; \<open>Failed\<close> is any error whose name is not \<^verbatim>\<open>'AbortError'\<close> (the
  \<^verbatim>\<open>Error\<close> thrown for a response that is not \<^verbatim>\<open>ok\<close>, a network error); \<open>Aborted\<close> is the
  rejection of a \<^verbatim>\<open>fetch\<close> whose signal was aborted. The \<^verbatim>\<open>finally\<close> block runs in each
  case; after a success the nested \<^verbatim>\<open>this._uploadChunks()\<close> runs to its first \<^verbatim>\<open>await\<close>
  before the loop goes on.
\<close>

definition settle :: "uploader \<Rightarrow> transfer \<Rightarrow> outcome \<Rightarrow> uploader" where
  "settle u t out =
     (let u0 = u\<lparr>transfers := remove1 t (transfers u)\<rparr> in
      case out of
        Succeeded \<Rightarrow>
          (let u1 = u0\<lparr>uploaded := (if chunk t \<in> set (uploaded u0) then uploaded u0
                                      else uploaded u0 @ [chunk t]),
                       callbacks := callbacks u0 @ [OnProgress]\<rparr>;
               u2 = u1\<lparr>activeConnections := activeConnections u1 - 1\<rparr>;
               u3 = (if \<not> paused u2 then uploadChunks u2 else u2)
           in upload_loop u3 (pending t))
      | Failed \<Rightarrow>
          u0\<lparr>callbacks := callbacks u0 @ [OnError (ChunkError (chunk t))],
             activeConnections := activeConnections u0 - 1\<rparr>
      | Aborted \<Rightarrow> u0\<lparr>activeConnections := activeConnections u0 - 1\<rparr>)"

text \<open>\<^verbatim>\<open>pause()\<close>: only the controller \<^verbatim>\<open>this.abortController\<close> holds is aborted.\<close>

definition pause :: "uploader \<Rightarrow> uploader" where
  "pause u =
     (let u1 = u\<lparr>paused := True\<rparr> in
      case abortController u1 of
        None \<Rightarrow> u1
      | Some c \<Rightarrow> u1\<lparr>aborted := c # aborted u1\<rparr>)"

text \<open>\<^verbatim>\<open>start()\<close> up to its first \<^verbatim>\<open>await\<close>; resuming is \<^verbatim>\<open>start()\<close> on a paused uploader.\<close>

definition start :: "uploader \<Rightarrow> uploader" where
  "start u =
     (if paused u then
        (let u1 = u\<lparr>paused := False\<rparr> in
         if no_id (uploadId u1) then u1\<lparr>inits := inits u1 @ [(AwaitInit, True)]\<rparr>
         else uploadChunks u1)
      else u\<lparr>inits := inits u @ [(AwaitInit, False)]\<rparr>)"

text \<open>When \<^verbatim>\<open>_initUploadSession\<close> returns to a \<^verbatim>\<open>start()\<close> that was resuming, \<^verbatim>\<open>start()\<close>
  calls \<^verbatim>\<open>_uploadChunks\<close> itself.\<close>

definition init_returns :: "uploader \<Rightarrow> bool \<Rightarrow> uploader" where
  "init_returns u resuming = (if resuming then uploadChunks u else u)"

datatype event =
    StartCall
  | PauseCall
  | InitSettled nat init_reply
  | ProgressSettled nat "nat list option"
  | TransferSettled nat outcome
  | MergeSettled bool

fun client_step :: "uploader \<Rightarrow> event \<Rightarrow> uploader" where
  "client_step u StartCall = start u"
| "client_step u PauseCall = pause u"
| "client_step u (InitSettled k reply) =
     (if k < length (inits u) \<and> fst (inits u ! k) = AwaitInit then
        (let resuming = snd (inits u ! k);
             u0 = u\<lparr>inits := take k (inits u) @ drop (Suc k) (inits u)\<rparr>
         in case reply of
              InitThrows \<Rightarrow>
                init_returns (u0\<lparr>callbacks := callbacks u0 @ [OnError InitError]\<rparr>) resuming
            | InitResponse uid dedup \<Rightarrow>
                (let u1 = u0\<lparr>uploadId := uid\<rparr> in
                 if no_id uid \<and> dedup
                 then init_returns (u1\<lparr>uploaded := [],
                                       callbacks := callbacks u1 @ [OnProgress, OnSuccess]\<rparr>) resuming
                 else u1\<lparr>inits := inits u1 @ [(AwaitProgress, resuming)]\<rparr>))
      else u)"
| "client_step u (ProgressSettled k reply) =
     (if k < length (inits u) \<and> fst (inits u ! k) = AwaitProgress then
        (let resuming = snd (inits u ! k);
             u0 = u\<lparr>inits := take k (inits u) @ drop (Suc k) (inits u)\<rparr>
         in case reply of
              None \<Rightarrow> init_returns (u0\<lparr>callbacks := callbacks u0 @ [OnError ProgressError]\<rparr>) resuming
            | Some ups \<Rightarrow> init_returns (uploadChunks (u0\<lparr>uploaded := ups\<rparr>)) resuming)
      else u)"
| "client_step u (TransferSettled c out) =
     (case find (\<lambda>t. ctrl t = c) (transfers u) of
        None \<Rightarrow> u
      | Some t \<Rightarrow> if out = Aborted \<and> c \<notin> set (aborted u) then u else settle u t out)"
| "client_step u (MergeSettled ok) =
     (if merges u = 0 then u
      else (let u0 = u\<lparr>merges := merges u - 1\<rparr> in
            if ok then u0\<lparr>callbacks := callbacks u0 @ [OnSuccess]\<rparr> else u0))"

definition client_run :: "uploader \<Rightarrow> event list \<Rightarrow> uploader" where
  "client_run u evs = foldl client_step u evs"

section \<open>Sample inputs\<close>

text \<open>Concrete requests and states on which the theorems below are instantiated. \<open>ext_bin\<close>
  stands for \<^verbatim>\<open>path.extname\<close> on names that end in \<^verbatim>\<open>.bin\<close>, and \<open>fp_none\<close> for a
  floating-point evaluation that is never consulted.\<close>

definition ext_bin :: "string \<Rightarrow> string" where
  "ext_bin f = ''.bin''"

definition fp_none :: "nat \<Rightarrow> int \<Rightarrow> jsnum" where
  "fp_none len t = NaN"

text \<open>A three-chunk upload whose chunks arrive in the order 2, 0, 1.\<close>

definition requests_201 :: "request list" where
  "requests_201 =
     [InitReq ''a.bin'' 3 1 ''h'' ''u'' False,
      ChunkReq ''u'' ''2'' (Some (''t1'', [12])) False False False,
      ChunkReq ''u'' ''0'' (Some (''t2'', [10])) False False False,
      ChunkReq ''u'' ''1'' (Some (''t3'', [11])) False False False]"

definition server_201 :: server where
  "server_201 = the (run ext_bin fp_none empty_server requests_201)"

text \<open>Chunk \<open>i\<close> of the sample file is the single byte \<open>10 + i\<close>.\<close>

definition content_abc :: "nat \<Rightarrow> bytes" where
  "content_abc i = [of_nat (10 + i)]"


text \<open>The server after the three-chunk upload has been merged.\<close>

definition server_merged :: server where
  "server_merged = snd (the (merge_upload ext_bin server_201 ''u'' ''a.bin'' ''h'' NoFault False))"



text \<open>A two-chunk session that is sent a chunk with index 7.\<close>

definition requests_7 :: "request list" where
  "requests_7 =
     [InitReq ''a.bin'' 10 5 ''h'' ''u'' False,
      ChunkReq ''u'' ''7'' (Some (''t1'', [1])) False False False]"

definition server_7 :: server where
  "server_7 = the (run ext_bin fp_none empty_server requests_7)"

text \<open>A client with four chunks and a window of two, after its first transfer has
  succeeded.\<close>

definition uploader_two :: uploader where
  "uploader_two = client_run (new_uploader [0, 1, 2, 3] (Some 2))
     [StartCall, InitSettled 0 (InitResponse (Some ''u'') False), ProgressSettled 0 (Some []),
      TransferSettled 0 Succeeded]"

text \<open>A client with three chunks and the default window: the first transfer succeeds, which
  leaves two transfers in flight, and then \<^verbatim>\<open>pause()\<close> is called.\<close>

definition uploader_paused :: uploader where
  "uploader_paused = client_run (new_uploader [0, 1, 2] None)
     [StartCall, InitSettled 0 (InitResponse (Some ''u'') False), ProgressSettled 0 (Some []),
      TransferSettled 0 Succeeded, PauseCall]"

section \<open>The invariant of the scheduler\<close>

text \<open>What holds of the scheduler in every state: \<^verbatim>\<open>activeConnections\<close> counts the
  transfers in flight and does not exceed the window.\<close>

definition sched_inv :: "uploader \<Rightarrow> bool" where
  "sched_inv u = (activeConnections u = int (length (transfers u))
                  \<and> activeConnections u \<le> max 0 (concurrent u))"

section \<open>Loops of the server\<close>

lemma show_nat_small:
  "show_nat 0 = ''0''" "show_nat 1 = ''1''" "show_nat (Suc 0) = ''1''" "show_nat 2 = ''2''"
  "show_nat 3 = ''3''"
  by (simp_all add: show_nat.simps digit_char_def)

lemma push_loop_Num:
  "push_loop cond (Num t) i acc = Some (acc @ filter cond [i..<nat t])"
proof (induction "nat t - i" arbitrary: i acc)
  case 0
  then have "\<not> int i < t" by linarith
  moreover from 0 have "[i..<nat t] = []" by simp
  ultimately show ?case by (subst push_loop.simps) simp
next
  case (Suc d)
  then have lt: "int i < t" and d: "d = nat t - Suc i" by linarith+
  from lt have "i < nat t" by linarith
  then have up: "[i..<nat t] = i # [Suc i..<nat t]" by (simp add: upt_conv_Cons)
  show ?case
    by (subst push_loop.simps) (simp add: lt Suc.hyps(1)[OF d] up)
qed

lemma push_loop_stops:
  "\<not> js_lt_nat 0 tot \<Longrightarrow> push_loop cond tot 0 acc = Some acc"
  by (subst push_loop.simps) simp



lemma missingFiles_Num:
  "tempDirs s uid = Some dir \<Longrightarrow>
     missingFiles (tempDirs s) uid (Num t)
       = Some (filter (\<lambda>i. dir (part_name (show_nat i)) = None) [0..<nat t])"
  by (simp add: missingFiles_def push_loop_Num file_in_def)

text \<open>With every chunk file in place the merge engine returns, whatever happens to the
  streams, and without a fault it resolves with the chunks in index order in the file.\<close>

lemma writeNextChunk_returns:
  assumes "\<forall>j<nat t. dir (part_name (show_nat j)) = Some (content j)"
  shows "\<exists>res out. writeNextChunk dir (Num t) fault i w = Some (res, out)"
proof (induction "nat t - i" arbitrary: i w)
  case 0
  then have "t \<le> int i" by linarith
  then show ?case by (subst writeNextChunk.simps) simp
next
  case (Suc d)
  then have lt: "\<not> t \<le> int i" and d: "d = nat t - Suc i" by linarith+
  from lt have il: "i < nat t" by linarith
  from il assms have here: "dir (part_name (show_nat i)) = Some (content i)" by simp
  note IH = Suc.hyps(1)[OF d, of "w @ content i"]
  show ?case
  proof (cases fault)
    case NoFault
    with IH show ?thesis by (subst writeNextChunk.simps) (simp add: lt here)
  next
    case OpenFails
    then show ?thesis by (subst writeNextChunk.simps) (simp add: lt here)
  next
    case (WriteFailsAfter k early)
    with IH show ?thesis by (subst writeNextChunk.simps) (auto simp: lt here)
  next
    case (ReadFails c k)
    with IH show ?thesis by (subst writeNextChunk.simps) (auto simp: lt here)
  qed
qed

lemma writeNextChunk_no_fault:
  assumes "\<forall>j<nat t. dir (part_name (show_nat j)) = Some (content j)"
  shows "writeNextChunk dir (Num t) NoFault i w
           = Some (Inr (), Some (w @ concat (map content [i..<nat t])))"
proof (induction "nat t - i" arbitrary: i w)
  case 0
  then have "t \<le> int i" by linarith
  moreover from 0 have "[i..<nat t] = []" by simp
  ultimately show ?case by (subst writeNextChunk.simps) simp
next
  case (Suc d)
  then have lt: "\<not> t \<le> int i" and d: "d = nat t - Suc i" by linarith+
  from lt have il: "i < nat t" by linarith
  then have up: "[i..<nat t] = i # [Suc i..<nat t]" by (simp add: upt_conv_Cons)
  from il assms have here: "dir (part_name (show_nat i)) = Some (content i)" by simp
  from Suc.hyps(1)[OF d, of "w @ content i"] show ?case
    by (subst writeNextChunk.simps) (simp add: lt here up)
qed

text \<open>The pieces of a chunk.\<close>

lemma before_last_piece_less: "before_last_piece off n \<Longrightarrow> off < n"
proof (rule ccontr)
  assume a: "before_last_piece off n" and "\<not> off < n"
  then have "n - 1 \<le> off" by simp
  then have "(n - 1) div highWaterMark \<le> off div highWaterMark" by (rule div_le_mono)
  with a show False by (simp add: before_last_piece_def)
qed

lemma one_piece: "n \<le> highWaterMark \<Longrightarrow> \<not> before_last_piece off n"
proof -
  assume "n \<le> highWaterMark"
  then have "n - 1 < highWaterMark" by (simp add: highWaterMark_def)
  then have "(n - 1) div highWaterMark = 0" by simp
  then show ?thesis by (simp add: before_last_piece_def)
qed

text \<open>A failed write that meets the bytes of a chunk other than the last is heard: the
  engine rejects, and the file holds the bytes written before the failure.\<close>

lemma writeNextChunk_write_fails:
  assumes present: "\<forall>j<nat t. dir (part_name (show_nat j)) = Some (content j)"
  shows "i < nat t \<Longrightarrow> k < length w + length (concat (map content [i..<nat t - 1])) \<Longrightarrow>
     writeNextChunk dir (Num t) (WriteFailsAfter k early) i w
       = Some (Inl WriteStreamError, Some (take k (w @ concat (map content [i..<nat t]))))"
proof (induction "nat t - i" arbitrary: i w)
  case 0
  then show ?case by simp
next
  case (Suc d)
  then have lt: "\<not> t \<le> int i" and d: "d = nat t - Suc i" by linarith+
  from Suc.prems(1) have up: "[i..<nat t] = i # [Suc i..<nat t]" by (simp add: upt_conv_Cons)
  from Suc.prems(1) present have here: "dir (part_name (show_nat i)) = Some (content i)" by simp
  show ?case
  proof (cases "k < length w \<or> (early \<and> before_last_piece (k - length w) (length (content i)))")
    case True
    then have "k < length w + length (content i)"
      using before_last_piece_less[of "k - length w" "length (content i)"] by auto
    with True show ?thesis
      by (subst writeNextChunk.simps) (simp add: lt here up)
  next
    case False
    then have le: "length w \<le> k" by simp
    with Suc.prems(2) have "[i..<nat t - 1] \<noteq> []" by auto
    then have i1: "i < nat t - 1" by simp
    then have up1: "[i..<nat t - 1] = i # [Suc i..<nat t - 1]" by (simp add: upt_conv_Cons)
    from i1 have s: "Suc i < nat t" by simp
    from Suc.prems(2) have "k < length (w @ content i) + length (concat (map content [Suc i..<nat t - 1]))"
      unfolding up1 by simp
    note IH = Suc.hyps(1)[OF d s this]
    from False
    have nc: "(k < length w \<or> (early \<and> before_last_piece (k - length w) (length (content i)))) = False"
      by simp
    show ?thesis
      by (subst writeNextChunk.simps) (simp add: lt here up nc IH)
  qed
qed

text \<open>A failed write that meets the last piece of the last chunk is not heard: the engine
  resolves, and the file holds the bytes written before the failure.\<close>

lemma writeNextChunk_write_fails_last:
  assumes present: "\<forall>j<nat t. dir (part_name (show_nat j)) = Some (content j)"
    and piece: "early \<longrightarrow> length (content (nat t - 1)) \<le> highWaterMark"
  shows "i < nat t \<Longrightarrow> length w + length (concat (map content [i..<nat t - 1])) \<le> k \<Longrightarrow>
     writeNextChunk dir (Num t) (WriteFailsAfter k early) i w
       = Some (Inr (), Some (take k (w @ concat (map content [i..<nat t]))))"
proof (induction "nat t - i" arbitrary: i w)
  case 0
  then show ?case by simp
next
  case (Suc d)
  then have lt: "\<not> t \<le> int i" and d: "d = nat t - Suc i" by linarith+
  from Suc.prems(1) have up: "[i..<nat t] = i # [Suc i..<nat t]" by (simp add: upt_conv_Cons)
  from Suc.prems(1) present have here: "dir (part_name (show_nat i)) = Some (content i)" by simp
  from Suc.prems(2) have le: "length w \<le> k" by simp
  show ?case
  proof (cases "Suc i < nat t")
    case True
    then have up1: "[i..<nat t - 1] = i # [Suc i..<nat t - 1]" by (simp add: upt_conv_Cons)
    from Suc.prems(2) have far: "length (w @ content i) + length (concat (map content [Suc i..<nat t - 1])) \<le> k"
      unfolding up1 by simp
    then have "\<not> k - length w < length (content i)" by simp
    then have quiet: "\<not> before_last_piece (k - length w) (length (content i))"
      using before_last_piece_less by blast
    from Suc.hyps(1)[OF d True far] le quiet show ?thesis
      by (subst writeNextChunk.simps) (simp add: lt here up)
  next
    case False
    with Suc.prems(1) have last: "i = nat t - 1" and fin: "t \<le> int (Suc i)" by linarith+
    from piece last have quiet: "\<not> (early \<and> before_last_piece (k - length w) (length (content i)))"
      using one_piece by blast
    from False have "[Suc i..<nat t] = []" by simp
    with up have one: "concat (map content [i..<nat t]) = content i" by simp
    from fin have stop: "writeNextChunk dir (Num t) (WriteFailsAfter k early) (Suc i) (w @ content i)
        = Some (Inr (), Some (take k (w @ content i)))"
      by (subst writeNextChunk.simps) simp
    from stop le quiet show ?thesis
      by (subst writeNextChunk.simps) (simp add: lt here one)
  qed
qed

lemma writeNextChunk_open_fails:
  assumes "dir (part_name (show_nat 0)) = Some data" and "0 < t"
  shows "writeNextChunk dir (Num t) OpenFails 0 [] = Some (Inl WriteStreamError, None)"
  using assms by (subst writeNextChunk.simps) simp

lemma ensureDir_existing: "dirs d = Some x \<Longrightarrow> ensureDir dirs d = dirs"
  by (simp add: ensureDir_def)

lemma map_of_update_same: "map_of (AList.update k v al) k = Some v"
  by (simp add: update_conv')

text \<open>The merge handler once the check of the chunk files has found none missing.\<close>

lemma merge_upload_staged:
  assumes sess: "uploadStatus s uid = Some status"
    and tot: "totalChunks status = Num t"
    and dir: "tempDirs s uid = Some dir"
    and nomiss: "missingFiles (tempDirs s) uid (Num t) = Some []"
    and w: "writeNextChunk dir (Num t) fault 0 [] = Some (res, out)"
    and s2: "s2 = s\<lparr>uploads := write_output (uploads s) (fhash @ extname fname) out\<rparr>"
  shows "merge_upload extname s uid fname fhash fault rm_fails =
      (case res of
         Inl e \<Rightarrow> Some (MergeFailed e, s2)
       | Inr _ \<Rightarrow>
           if rm_fails then Some (MergeFailed RemoveFailed, s2)
           else Some (MergeOk (fhash @ extname fname),
                      s2\<lparr>tempDirs := (tempDirs s2)(uid := None),
                         uploadStatus := (uploadStatus s2)(uid := None)\<rparr>))"
proof -
  have mc: "mergeChunks (tempDirs s) uid (Num t) fault = Some (res, out)"
    by (simp add: mergeChunks_def dir w)
  show ?thesis
    by (simp add: merge_upload_def sess tot dir ensureDir_existing nomiss mc Let_def s2
          split: sum.splits)
qed

text \<open>The merge handler on a session whose chunk files are all staged: it returns; without
  a fault it answers with the final name, the archive holds the chunks in index order under
  that name, and the staging directory and the session record are removed.\<close>

lemma merge_upload_returns:
  assumes sess: "uploadStatus s uid = Some status"
    and tot: "totalChunks status = Num t"
    and dir: "tempDirs s uid = Some dir"
    and present: "\<forall>i<nat t. dir (part_name (show_nat i)) = Some (content i)"
  shows "\<exists>r s'. merge_upload extname s uid fname fhash fault rm_fails = Some (r, s')"
proof -
  from present have nomiss: "missingFiles (tempDirs s) uid (Num t) = Some []"
    by (simp add: missingFiles_Num[OF dir] filter_empty_conv)
  from writeNextChunk_returns[OF present, of fault 0 "[]"]
  obtain res out where w: "writeNextChunk dir (Num t) fault 0 [] = Some (res, out)" by blast
  show ?thesis
    unfolding merge_upload_staged[where extname = extname and fname = fname and fhash = fhash
        and rm_fails = rm_fails, OF sess tot dir nomiss w refl]
    by (cases res) auto
qed

lemma merge_upload_no_fault:
  assumes sess: "uploadStatus s uid = Some status"
    and tot: "totalChunks status = Num t"
    and dir: "tempDirs s uid = Some dir"
    and present: "\<forall>i<nat t. dir (part_name (show_nat i)) = Some (content i)"
  shows "merge_upload extname s uid fname fhash NoFault False
           = Some (MergeOk (fhash @ extname fname),
                   s\<lparr>uploads := AList.update (fhash @ extname fname)
                                  (concat (map content [0..<nat t])) (uploads s),
                     tempDirs := (tempDirs s)(uid := None),
                     uploadStatus := (uploadStatus s)(uid := None)\<rparr>)"
proof -
  from present have nomiss: "missingFiles (tempDirs s) uid (Num t) = Some []"
    by (simp add: missingFiles_Num[OF dir] filter_empty_conv)
  have w: "writeNextChunk dir (Num t) NoFault 0 []
      = Some (Inr (), Some (concat (map content [0..<nat t])))"
    using writeNextChunk_no_fault[OF present, of 0 "[]"] by simp
  show ?thesis
    by (simp add: merge_upload_staged[where extname = extname and fname = fname and fhash = fhash,
          OF sess tot dir nomiss w refl] write_output_def)
qed

lemma merge_upload_write_fails:
  assumes sess: "uploadStatus s uid = Some status"
    and tot: "totalChunks status = Num t"
    and dir: "tempDirs s uid = Some dir"
    and present: "\<forall>i<nat t. dir (part_name (show_nat i)) = Some (content i)"
    and k: "k < length (concat (map content [0..<nat t - 1]))"
  shows "merge_upload extname s uid fname fhash (WriteFailsAfter k early) rm_fails
           = Some (MergeFailed WriteStreamError,
                   s\<lparr>uploads := AList.update (fhash @ extname fname)
                                  (take k (concat (map content [0..<nat t]))) (uploads s)\<rparr>)"
proof -
  from present have nomiss: "missingFiles (tempDirs s) uid (Num t) = Some []"
    by (simp add: missingFiles_Num[OF dir] filter_empty_conv)
  from k have "[0..<nat t - 1] \<noteq> []" by auto
  then have t: "0 < nat t" by simp
  from k have w: "writeNextChunk dir (Num t) (WriteFailsAfter k early) 0 []
      = Some (Inl WriteStreamError, Some (take k (concat (map content [0..<nat t]))))"
    using writeNextChunk_write_fails[OF present t, of k "[]" early] by simp
  show ?thesis
    by (simp add: merge_upload_staged[where extname = extname and fname = fname and fhash = fhash,
          OF sess tot dir nomiss w refl] write_output_def)
qed

lemma merge_upload_write_fails_last:
  assumes sess: "uploadStatus s uid = Some status"
    and tot: "totalChunks status = Num t"
    and dir: "tempDirs s uid = Some dir"
    and present: "\<forall>i<nat t. dir (part_name (show_nat i)) = Some (content i)"
    and t: "0 < t"
    and piece: "early \<longrightarrow> length (content (nat t - 1)) \<le> highWaterMark"
    and k: "length (concat (map content [0..<nat t - 1])) \<le> k"
  shows "merge_upload extname s uid fname fhash (WriteFailsAfter k early) False
           = Some (MergeOk (fhash @ extname fname),
                   s\<lparr>uploads := AList.update (fhash @ extname fname)
                                  (take k (concat (map content [0..<nat t]))) (uploads s),
                     tempDirs := (tempDirs s)(uid := None),
                     uploadStatus := (uploadStatus s)(uid := None)\<rparr>)"
proof -
  from present have nomiss: "missingFiles (tempDirs s) uid (Num t) = Some []"
    by (simp add: missingFiles_Num[OF dir] filter_empty_conv)
  from t have t0: "0 < nat t" by simp
  from k have w: "writeNextChunk dir (Num t) (WriteFailsAfter k early) 0 []
      = Some (Inr (), Some (take k (concat (map content [0..<nat t]))))"
    using writeNextChunk_write_fails_last[OF present piece t0, of "[]" k] by simp
  show ?thesis
    by (simp add: merge_upload_staged[where extname = extname and fname = fname and fhash = fhash,
          OF sess tot dir nomiss w refl] write_output_def)
qed

lemma merge_upload_open_fails:
  assumes sess: "uploadStatus s uid = Some status"
    and tot: "totalChunks status = Num t"
    and dir: "tempDirs s uid = Some dir"
    and present: "\<forall>i<nat t. dir (part_name (show_nat i)) = Some (content i)"
    and t: "0 < t"
  shows "merge_upload extname s uid fname fhash OpenFails rm_fails
           = Some (MergeFailed WriteStreamError, s)"
proof -
  from present have nomiss: "missingFiles (tempDirs s) uid (Num t) = Some []"
    by (simp add: missingFiles_Num[OF dir] filter_empty_conv)
  from t present have "dir (part_name (show_nat 0)) = Some (content 0)" by simp
  from writeNextChunk_open_fails[where dir = dir, OF this t]
  have w: "writeNextChunk dir (Num t) OpenFails 0 [] = Some (Inl WriteStreamError, None)" .
  show ?thesis
    by (simp add: merge_upload_staged[where extname = extname and fname = fname and fhash = fhash,
          OF sess tot dir nomiss w refl] write_output_def)
qed


section \<open>Staging chunks\<close>

lemma serve_chunk_ok:
  assumes "uploadStatus s uid = Some st" and "tempDirs s uid = Some dir"
  shows "\<exists>s' st'. serve extname fp s (ChunkReq uid idx (Some (p, data)) False uf rmf)
             = Some (Some ChunkOk, s')
           \<and> uploadStatus s' uid = Some st' \<and> totalChunks st' = totalChunks st
           \<and> tempDirs s' uid = Some (dir(part_name idx \<mapsto> data))"
  using assms
  by (simp add: upload_chunk_def stored_def multer_single_def Let_def)

lemma show_nat_nonempty: "show_nat n \<noteq> []"
  by (subst show_nat.simps) simp

lemma digit_char_inj: "a < 10 \<Longrightarrow> b < 10 \<Longrightarrow> digit_char a = digit_char b \<Longrightarrow> a = b"
  unfolding digit_char_def
  by (subst (asm) nth_eq_iff_index_eq) simp_all

lemma show_nat_inj: "show_nat m = show_nat n \<Longrightarrow> m = n"
proof (induction m arbitrary: n rule: show_nat.induct)
  case (1 m)
  show ?case
  proof (cases "m < 10")
    case True
    with "1.prems" have s: "show_nat n = [digit_char m]"
      by (subst (asm) show_nat.simps) simp
    have "n < 10"
    proof (rule ccontr)
      assume "\<not> n < 10"
      with s have "show_nat (n div 10) @ [digit_char (n mod 10)] = [digit_char m]"
        by (subst (asm) show_nat.simps) simp
      then show False using show_nat_nonempty[of "n div 10"] by simp
    qed
    with s have "digit_char n = digit_char m"
      by (subst (asm) show_nat.simps) simp
    with True \<open>n < 10\<close> show ?thesis using digit_char_inj[of m n] by simp
  next
    case False
    with "1.prems" have s: "show_nat n = show_nat (m div 10) @ [digit_char (m mod 10)]"
      by (subst (asm) show_nat.simps) simp
    have "\<not> n < 10"
    proof
      assume "n < 10"
      with s have "[digit_char n] = show_nat (m div 10) @ [digit_char (m mod 10)]"
        by (subst (asm) show_nat.simps) simp
      then show False using show_nat_nonempty[of "m div 10"] by simp
    qed
    with s have "show_nat (n div 10) @ [digit_char (n mod 10)]
        = show_nat (m div 10) @ [digit_char (m mod 10)]"
      by (subst (asm) show_nat.simps) simp
    then have a: "show_nat (m div 10) = show_nat (n div 10)"
      and b: "digit_char (m mod 10) = digit_char (n mod 10)" by simp_all
    from "1.IH"[OF False a] have "m div 10 = n div 10" .
    moreover from b have "m mod 10 = n mod 10"
      by (rule digit_char_inj[rotated 2]) simp_all
    ultimately show ?thesis by (metis div_mult_mod_eq)
  qed
qed

lemma part_name_show_nat_inj: "part_name (show_nat i) = part_name (show_nat j) \<Longrightarrow> i = j"
  by (simp add: part_name_def show_nat_inj)

text \<open>Chunk requests for any list of indices, in any order and with repetitions, leave every
  listed chunk staged with its bytes and change no other file of the session directory, and
  nothing of the archive.\<close>

lemma run_chunk_requests_staged:
  assumes "uploadStatus s uid = Some st" and "tempDirs s uid = Some dir"
  shows "\<exists>s' st' dir'. run extname fp s (chunk_requests uid path content idxs) = Some s'
           \<and> uploadStatus s' uid = Some st' \<and> totalChunks st' = totalChunks st
           \<and> tempDirs s' uid = Some dir'
           \<and> (\<forall>i\<in>set idxs. dir' (part_name (show_nat i)) = Some (content i))
           \<and> (\<forall>n. n \<notin> (\<lambda>i. part_name (show_nat i)) ` set idxs \<longrightarrow> dir' n = dir n)"
  using assms
proof (induction idxs arbitrary: s st dir)
  case Nil
  then show ?case by (simp add: chunk_requests_def)
next
  case (Cons i idxs)
  from serve_chunk_ok[OF Cons.prems, of extname fp "show_nat i" "path i" "content i" False False]
  obtain s1 st1 where
    step: "serve extname fp s (ChunkReq uid (show_nat i) (Some (path i, content i)) False False False)
             = Some (Some ChunkOk, s1)"
    and s1: "uploadStatus s1 uid = Some st1" and t1: "totalChunks st1 = totalChunks st"
    and d1: "tempDirs s1 uid = Some (dir(part_name (show_nat i) \<mapsto> content i))"
    by blast
  from Cons.IH[OF s1 d1]
  obtain s' st' dir' where
    r: "run extname fp s1 (chunk_requests uid path content idxs) = Some s'"
    and a: "uploadStatus s' uid = Some st'" "totalChunks st' = totalChunks st1"
      "tempDirs s' uid = Some dir'"
    and new: "\<forall>j\<in>set idxs. dir' (part_name (show_nat j)) = Some (content j)"
    and keep: "\<forall>n. n \<notin> (\<lambda>i. part_name (show_nat i)) ` set idxs
                 \<longrightarrow> dir' n = (dir(part_name (show_nat i) \<mapsto> content i)) n"
    by blast
  have "run extname fp s (chunk_requests uid path content (i # idxs)) = Some s'"
    using step r by (simp add: chunk_requests_def)
  moreover have "dir' (part_name (show_nat i)) = Some (content i)"
  proof (cases "i \<in> set idxs")
    case True
    with new show ?thesis by blast
  next
    case False
    then have "part_name (show_nat i) \<notin> (\<lambda>i. part_name (show_nat i)) ` set idxs"
      by (auto dest: part_name_show_nat_inj)
    with keep show ?thesis by simp
  qed
  moreover have "\<forall>n. n \<notin> (\<lambda>i. part_name (show_nat i)) ` set (i # idxs) \<longrightarrow> dir' n = dir n"
    using keep by auto
  ultimately show ?case using a t1 new by auto
qed

lemma run_chunk_requests_archive:
  "run extname fp s (chunk_requests uid path content idxs) = Some s' \<Longrightarrow> uploads s' = uploads s"
proof (induction idxs arbitrary: s)
  case Nil
  then show ?case by (simp add: chunk_requests_def)
next
  case (Cons i idxs)
  have u: "uploads (snd (upload_chunk s0 uid idx fl rf uf rmf)) = uploads s0" for s0 idx fl rf uf rmf
    by (auto simp: upload_chunk_def handleRequestCancel_def Let_def split: option.splits)
  from Cons.prems obtain a s1 where
    step: "serve extname fp s (ChunkReq uid (show_nat i) (Some (path i, content i)) False False False)
             = Some (a, s1)"
    and rest: "run extname fp s1 (chunk_requests uid path content idxs) = Some s'"
    by (auto simp: chunk_requests_def split: option.splits)
  from step have "uploads s1 = uploads s"
    using u[of "stored s (Some (path i, content i))"]
    by (auto simp: Let_def split_def stored_def multer_single_def)
  with Cons.IH[OF rest] show ?case by simp
qed

text \<open>The ordering law: whatever the order in which the chunks of a session arrive, as long
  as every index below \<open>totalChunks\<close> arrives, a merge without a fault produces the same file,
  the concatenation in index order.\<close>

lemma upload_order_irrelevant:
  assumes sess: "uploadStatus s uid = Some st"
    and tot: "totalChunks st = Num t"
    and dir: "tempDirs s uid = Some dir"
    and cover: "{0..<nat t} \<subseteq> set idxs"
  shows "\<exists>s1 s2. run extname fp s (chunk_requests uid path content idxs) = Some s1
           \<and> merge_upload extname s1 uid fname fhash NoFault False
               = Some (MergeOk (fhash @ extname fname), s2)
           \<and> map_of (uploads s2) (fhash @ extname fname) = Some (concat (map content [0..<nat t]))"
proof -
  from run_chunk_requests_staged[OF sess dir, of extname fp path content idxs]
  obtain s1 st1 dir1 where
    r: "run extname fp s (chunk_requests uid path content idxs) = Some s1"
    and sess1: "uploadStatus s1 uid = Some st1" and tot1: "totalChunks st1 = Num t"
    and dir1: "tempDirs s1 uid = Some dir1"
    and staged: "\<forall>i\<in>set idxs. dir1 (part_name (show_nat i)) = Some (content i)"
    using tot by auto
  from staged cover have present: "\<forall>i<nat t. dir1 (part_name (show_nat i)) = Some (content i)"
    by auto
  show ?thesis
    using r
    by (simp add: merge_upload_no_fault[OF sess1 tot1 dir1 present] map_of_update_same)
qed

section \<open>The sample upload\<close>

lemma server_201_session:
  "map_option totalChunks (uploadStatus server_201 ''u'') = Some (Num 3)"
  by code_simp

lemma server_201_files:
  "map_option (\<lambda>d. map d [''0.part'', ''1.part'', ''2.part'']) (tempDirs server_201 ''u'')
     = Some [Some [10], Some [11], Some [12]]"
  by code_simp

lemma server_201_staged:
  "\<exists>status dir. uploadStatus server_201 ''u'' = Some status \<and> totalChunks status = Num 3
      \<and> tempDirs server_201 ''u'' = Some dir
      \<and> (\<forall>i<nat 3. dir (part_name (show_nat i)) = Some (content_abc i))"
proof -
  obtain status where sess: "uploadStatus server_201 ''u'' = Some status"
    and tot: "totalChunks status = Num 3"
    using server_201_session by auto
  obtain dir where dir: "tempDirs server_201 ''u'' = Some dir"
    and files: "dir ''0.part'' = Some [10]" "dir ''1.part'' = Some [11]" "dir ''2.part'' = Some [12]"
    using server_201_files by auto
  have "\<forall>i<nat 3. dir (part_name (show_nat i)) = Some (content_abc i)"
  proof (intro allI impI)
    fix i :: nat
    assume "i < nat 3"
    then consider "i = 0" | "i = 1" | "i = 2" by force
    then show "dir (part_name (show_nat i)) = Some (content_abc i)"
      by cases (simp_all add: content_abc_def part_name_def show_nat_small files)
  qed
  with sess tot dir show ?thesis by blast
qed

lemma content_abc_3: "concat (map content_abc [0..<3]) = [10, 11, 12]"
proof -
  have "[0..<3] = [0, Suc 0, 2]" by (simp add: upt_rec)
  then show ?thesis by (simp add: content_abc_def)
qed

lemma content_abc_2: "concat (map content_abc [0..<2]) = [10, 11]"
proof -
  have "[0..<2] = [0, Suc 0]" by (simp add: upt_rec)
  then show ?thesis by (simp add: content_abc_def)
qed

lemma server_201_uploads: "uploads server_201 = []"
  by code_simp

lemma server_201_chunks:
  "map (chunk_file server_201 ''u'') [0, 1, 2] = [Some [10], Some [11], Some [12]]"
  by code_simp

section \<open>The merged file\<close>

text \<open>
  Claim C1 on the code. A merge that answers with success has not always written the
  concatenation of the chunks. The engine calls \<^verbatim>\<open>resolve()\<close> right after
  \<^verbatim>\<open>writeStream.end()\<close>, without waiting for the stream to finish, so a write of the last
  chunk that fails is not heard by the \<^verbatim>\<open>'error'\<close> listener, which is there to reject the
  merge. In the sample session the chunks \<open>[10]\<close>, \<open>[11]\<close>, \<open>[12]\<close> are staged (they
  arrived in the order 2, 0, 1) and the output stream fails once two bytes have reached the
  file: the handler answers with success and removes the staging directory and the session
  record, and the archive holds \<open>[10, 11]\<close> under the final name.
\<close>

theorem merge_succeeds_with_truncated_output:
  "map (chunk_file server_201 ''u'') [0, 1, 2] = [Some [10], Some [11], Some [12]]
   \<and> merge_upload ext_bin server_201 ''u'' ''a.bin'' ''h'' (WriteFailsAfter 2 False) False
       = Some (MergeOk ''h.bin'',
               server_201\<lparr>uploads := [(''h.bin'', [10, 11])],
                          tempDirs := (tempDirs server_201)(''u'' := None),
                          uploadStatus := (uploadStatus server_201)(''u'' := None)\<rparr>)
   \<and> merge_upload ext_bin server_201 ''u'' ''a.bin'' ''h'' (WriteFailsAfter 2 True) False
       = Some (MergeOk ''h.bin'',
               server_201\<lparr>uploads := [(''h.bin'', [10, 11])],
                          tempDirs := (tempDirs server_201)(''u'' := None),
                          uploadStatus := (uploadStatus server_201)(''u'' := None)\<rparr>)"
proof -
  from server_201_staged obtain status dir where
    sess: "uploadStatus server_201 ''u'' = Some status" and tot: "totalChunks status = Num 3"
    and dir: "tempDirs server_201 ''u'' = Some dir"
    and present: "\<forall>i<nat 3. dir (part_name (show_nat i)) = Some (content_abc i)"
    by blast
  have k: "length (concat (map content_abc [0..<nat 3 - 1])) \<le> 2"
    by (simp add: content_abc_2)
  have piece: "early \<longrightarrow> length (content_abc (nat 3 - 1)) \<le> highWaterMark" for early
    by (simp add: content_abc_def highWaterMark_def)
  have "merge_upload ext_bin server_201 ''u'' ''a.bin'' ''h'' (WriteFailsAfter 2 early) False
       = Some (MergeOk ''h.bin'',
               server_201\<lparr>uploads := [(''h.bin'', [10, 11])],
                          tempDirs := (tempDirs server_201)(''u'' := None),
                          uploadStatus := (uploadStatus server_201)(''u'' := None)\<rparr>)" for early
    using merge_upload_write_fails_last[OF sess tot dir present _ piece k,
        of ext_bin "''a.bin''" "''h''" early]
    by (simp add: content_abc_3 server_201_uploads ext_bin_def)
  with server_201_chunks show ?thesis by simp
qed

section \<open>Missing chunks\<close>







section \<open>A failing output stream\<close>

text \<open>
  Claim C9, as the code has it. When the output stream fails after \<open>k\<close> bytes that belong
  to a chunk other than the last, the merge handler answers with the stream's error and leaves
  the session record and every staged chunk as they were, but it does not remove the output
  file: the archive directory then holds, under the final name, the first \<open>k\<close> bytes of the
  concatenation. When the output file cannot be opened (and there is a chunk to write) the
  handler answers with the error and the state is unchanged.
\<close>

theorem failed_output_stream_keeps_partial_file:
  assumes sess: "uploadStatus s uid = Some status"
    and tot: "totalChunks status = Num t"
    and dir: "tempDirs s uid = Some dir"
    and present: "\<forall>i<nat t. dir (part_name (show_nat i)) = Some (content i)"
  shows "(k < length (concat (map content [0..<nat t - 1])) \<longrightarrow>
            merge_upload extname s uid fname fhash (WriteFailsAfter k early) rm_fails
              = Some (MergeFailed WriteStreamError,
                      s\<lparr>uploads := AList.update (fhash @ extname fname)
                                     (take k (concat (map content [0..<nat t]))) (uploads s)\<rparr>))
       \<and> (0 < t \<longrightarrow>
            merge_upload extname s uid fname fhash OpenFails rm_fails
              = Some (MergeFailed WriteStreamError, s))"
  using merge_upload_write_fails[OF sess tot dir present, of k extname fname fhash early rm_fails]
    merge_upload_open_fails[OF sess tot dir present, of extname fname fhash rm_fails]
  by blast

theorem failed_output_stream_keeps_partial_file_witness:
  "merge_upload ext_bin server_201 ''u'' ''a.bin'' ''h'' (WriteFailsAfter 1 False) False
     = Some (MergeFailed WriteStreamError, server_201\<lparr>uploads := [(''h.bin'', [10])]\<rparr>)
   \<and> merge_upload ext_bin server_201 ''u'' ''a.bin'' ''h'' OpenFails False
     = Some (MergeFailed WriteStreamError, server_201)"
proof -
  from server_201_staged obtain status dir where
    sess: "uploadStatus server_201 ''u'' = Some status" and tot: "totalChunks status = Num 3"
    and dir: "tempDirs server_201 ''u'' = Some dir"
    and present: "\<forall>i<nat 3. dir (part_name (show_nat i)) = Some (content_abc i)"
    by blast
  from failed_output_stream_keeps_partial_file[OF sess tot dir present,
      of 1 ext_bin "''a.bin''" "''h''" False False]
  show ?thesis
    by (simp add: content_abc_3 content_abc_2 server_201_uploads ext_bin_def)
qed

text \<open>The claim as the specification states it fails: the output stream fails when one byte
  has reached the file, while the second of three chunks is written. The handler answers with
  the error, and afterwards the archive directory holds a one-byte file under the final name,
  where there was none, and the dedup lookup of \<^verbatim>\<open>InitUpload\<close> finds it.\<close>

theorem partial_output_remains_counterexample:
  "map_of (uploads server_201) ''h.bin'' = None
   \<and> map_option fst (merge_upload ext_bin server_201 ''u'' ''a.bin'' ''h'' (WriteFailsAfter 1 False) False)
       = Some (MergeFailed WriteStreamError)
   \<and> map_of (uploads (snd (the
         (merge_upload ext_bin server_201 ''u'' ''a.bin'' ''h'' (WriteFailsAfter 1 False) False))))
       ''h.bin'' = Some [10]
   \<and> checkFileExists (uploads (snd (the
         (merge_upload ext_bin server_201 ''u'' ''a.bin'' ''h'' (WriteFailsAfter 1 False) False))))
       ''h'' = Some ''uploads/h.bin''"
proof -
  from server_201_staged obtain status dir where
    sess: "uploadStatus server_201 ''u'' = Some status" and tot: "totalChunks status = Num 3"
    and dir: "tempDirs server_201 ''u'' = Some dir"
    and present: "\<forall>i<nat 3. dir (part_name (show_nat i)) = Some (content_abc i)"
    by blast
  have "1 < length (concat (map content_abc [0..<nat 3 - 1]))"
    by (simp add: content_abc_2)
  from merge_upload_write_fails[OF sess tot dir present this, of ext_bin "''a.bin''" "''h''" False False]
  show ?thesis
    by (simp add: content_abc_3 server_201_uploads ext_bin_def checkFileExists_def upload_path_def)
qed

section \<open>Deduplication\<close>

lemma checkFileExists_hit:
  assumes "(f, d) \<in> set dir" and "prefix h f"
  shows "\<exists>g. checkFileExists dir h = Some (upload_path g) \<and> g \<in> fst ` set dir \<and> prefix h g
           \<and> ((\<forall>g'\<in>fst ` set dir. prefix h g' \<longrightarrow> g' = f) \<longrightarrow> g = f)"
proof (cases "find (\<lambda>f. prefix h f) (map fst dir)")
  case None
  with assms show ?thesis by (force simp: find_None_iff)
next
  case (Some g)
  then have "g \<in> set (map fst dir)" and "prefix h g"
    by (auto simp: find_Some_iff)
  with Some show ?thesis by (auto simp: checkFileExists_def)
qed

text \<open>
  Claim C5. When the archive directory holds a file for the content hash (a file whose name
  starts with the hash, as the name \<open>hash + extension\<close> written by a merge does),
  \<^verbatim>\<open>InitUpload\<close> with that hash answers with the path of an archived file of that hash (the
  file itself when it is the only one) and the server state is unchanged: no session record
  and no staging directory is created.
\<close>

theorem init_upload_dedup:
  assumes "(f, d) \<in> set (uploads s)" and "prefix fhash f"
  shows "\<exists>g. init_upload s fname fsize csize fhash uuid mkdir_fails = (InitExists (upload_path g), s)
           \<and> g \<in> fst ` set (uploads s) \<and> prefix fhash g
           \<and> ((\<forall>g'\<in>fst ` set (uploads s). prefix fhash g' \<longrightarrow> g' = f) \<longrightarrow> g = f)"
proof -
  from checkFileExists_hit[OF assms] obtain g where
    "checkFileExists (uploads s) fhash = Some (upload_path g)"
    and "g \<in> fst ` set (uploads s)" and "prefix fhash g"
    and "(\<forall>g'\<in>fst ` set (uploads s). prefix fhash g' \<longrightarrow> g' = f) \<longrightarrow> g = f"
    by blast
  then show ?thesis by (auto simp: init_upload_def)
qed

lemma server_merged_uploads: "uploads server_merged = [(''h.bin'', [10, 11, 12])]"
proof -
  from server_201_staged obtain status dir where
    sess: "uploadStatus server_201 ''u'' = Some status" and tot: "totalChunks status = Num 3"
    and dir: "tempDirs server_201 ''u'' = Some dir"
    and present: "\<forall>i<nat 3. dir (part_name (show_nat i)) = Some (content_abc i)"
    by blast
  show ?thesis
    by (simp add: server_merged_def merge_upload_no_fault[OF sess tot dir present]
          content_abc_3 server_201_uploads ext_bin_def)
qed

theorem init_upload_dedup_witness:
  "init_upload server_merged ''b.bin'' 3 1 ''h'' ''v'' False
     = (InitExists ''uploads/h.bin'', server_merged)"
proof -
  have a: "(''h.bin'', [10, 11, 12]) \<in> set (uploads server_merged)"
    by (simp add: server_merged_uploads)
  have b: "prefix ''h'' ''h.bin''" by simp
  from init_upload_dedup[OF a b, of "''b.bin''" 3 1 "''v''" False]
  show ?thesis
    by (auto simp: server_merged_uploads upload_path_def)
qed

section \<open>InitUpload accepts every size\<close>

text \<open>
  Claim C3, as the code has it. The init handler does not look at \<^verbatim>\<open>chunkSize\<close> or
  \<^verbatim>\<open>fileSize\<close> before it creates the session, so no value of them is refused: when no
  archived file matches the hash and the staging directory can be created, the session is
  registered with \<open>totalChunks = Math.ceil(fileSize / chunkSize)\<close> and no chunk, and its
  staging directory exists. The handler fails only when the directory cannot be created, and
  then the state is unchanged; on a dedup hit the state is unchanged too.
\<close>

theorem init_upload_no_validation:
  "(checkFileExists (uploads s) fhash = None \<and> \<not> mkdir_fails \<longrightarrow>
      (\<exists>s' st. init_upload s fname fsize csize fhash uuid mkdir_fails = (InitCreated uuid, s')
         \<and> uploadStatus s' uuid = Some st
         \<and> totalChunks st = js_ceil_div fsize csize \<and> uploadedChunks st = []
         \<and> tempDirs s' uuid \<noteq> None))
   \<and> (checkFileExists (uploads s) fhash = None \<and> mkdir_fails \<longrightarrow>
        init_upload s fname fsize csize fhash uuid mkdir_fails = (InitFailed, s))
   \<and> (\<forall>p. checkFileExists (uploads s) fhash = Some p \<longrightarrow>
        init_upload s fname fsize csize fhash uuid mkdir_fails = (InitExists p, s))"
  by (auto simp: init_upload_def ensureDir_def split: option.splits)

theorem init_upload_no_validation_witness:
  "\<exists>s' st. init_upload empty_server ''a.bin'' 10 0 ''h'' ''u'' False = (InitCreated ''u'', s')
       \<and> uploadStatus s' ''u'' = Some st
       \<and> totalChunks st = PosInf \<and> uploadedChunks st = []
       \<and> tempDirs s' ''u'' \<noteq> None"
proof -
  have "checkFileExists (uploads empty_server) ''h'' = None"
    by (simp add: empty_server_def checkFileExists_def)
  with init_upload_no_validation[of empty_server "''h''" False "''a.bin''" 10 0 "''u''"]
  show ?thesis by (simp add: js_ceil_div_def)
qed

text \<open>The claim as the specification states it fails: a \<^verbatim>\<open>chunkSize\<close> of 0 and a negative
  \<^verbatim>\<open>fileSize\<close> are both answered with a new session.\<close>

theorem init_upload_accepts_invalid_counterexample:
  "fst (init_upload empty_server ''a.bin'' 10 0 ''h'' ''u'' False) = InitCreated ''u''
   \<and> map_option totalChunks
        (uploadStatus (snd (init_upload empty_server ''a.bin'' 10 0 ''h'' ''u'' False)) ''u'')
       = Some PosInf
   \<and> tempDirs (snd (init_upload empty_server ''a.bin'' 10 0 ''h'' ''u'' False)) ''u'' \<noteq> None
   \<and> fst (init_upload empty_server ''a.bin'' (- 1) 5 ''h'' ''u'' False) = InitCreated ''u''
   \<and> map_option totalChunks
        (uploadStatus (snd (init_upload empty_server ''a.bin'' (- 1) 5 ''h'' ''u'' False)) ''u'')
       = Some NegZero"
  by (simp add: init_upload_def empty_server_def checkFileExists_def js_ceil_div_def ensureDir_def)

section \<open>A dropped connection\<close>

text \<open>What \<^verbatim>\<open>handleRequestCancel\<close> does where it is called: it removes the temporary file
  of the request and, for a registered session, the whole staging directory and the session
  record. The source calls it in the \<^verbatim>\<open>catch\<close> of the chunk handler, when the rename has
  failed, and in the \<^verbatim>\<open>'close'\<close> listener, when no response has been sent.\<close>

lemma handleRequestCancel_removes_session:
  assumes "uid \<noteq> []" and "uploadStatus s uid = Some st" and "\<not> rm_fails"
    and "s' = handleRequestCancel s file uid unlink_fails rm_fails"
  shows "uploadStatus s' uid = None \<and> tempDirs s' uid = None
       \<and> (\<forall>u. u \<noteq> uid \<longrightarrow> uploadStatus s' u = uploadStatus s u \<and> tempDirs s' u = tempDirs s u)
       \<and> uploads s' = uploads s
       \<and> (\<forall>p. tempFiles s' p = (if file = Some p \<and> \<not> unlink_fails then None else tempFiles s p))"
  using assms by (auto simp: handleRequestCancel_def Let_def split: option.splits)





section \<open>Progress of an empty file\<close>

text \<open>
  Claim C10. A session created for a file of size 0 has no chunk, and its progress is the
  rounding of \<open>0 / totalChunks * 100\<close> with \<open>totalChunks\<close> a zero (or \<^verbatim>\<open>NaN\<close>, when the chunk
  size is 0 too): the handler computes \<^verbatim>\<open>NaN\<close>, neither 0 nor 100, which the JSON body
  carries as \<^verbatim>\<open>null\<close>.
\<close>

theorem progress_of_empty_file_is_NaN:
  assumes "checkFileExists (uploads s) fhash = None"
  shows "\<exists>p tot. upload_progress fp (snd (init_upload s fname 0 csize fhash uuid False)) uuid
             = Some (Progress p [] tot [])
           \<and> p = NaN \<and> p \<noteq> Num 0 \<and> p \<noteq> Num 100 \<and> json_number p = None
           \<and> (0 < csize \<longrightarrow> tot = Num 0)"
proof -
  have z: "js_ceil_div 0 csize = NaN \<or> js_ceil_div 0 csize = Num 0 \<or> js_ceil_div 0 csize = NegZero"
    by (simp add: js_ceil_div_def)
  then have stop: "\<not> js_lt_nat 0 (js_ceil_div 0 csize)" by auto
  from z have pv: "progress_value fp 0 (js_ceil_div 0 csize) = NaN"
    by (auto simp: progress_value_def)
  have pos: "0 < csize \<Longrightarrow> js_ceil_div 0 csize = Num 0"
    by (simp add: js_ceil_div_def)
  show ?thesis
    using assms pos
    by (simp add: init_upload_def upload_progress_def push_loop_stops[OF stop] pv)
qed

theorem progress_of_empty_file_is_NaN_witness:
  "upload_progress fp_none (snd (init_upload empty_server ''e.bin'' 0 5 ''h'' ''u'' False)) ''u''
     = Some (Progress NaN [] (Num 0) [])"
proof -
  have "checkFileExists (uploads empty_server) ''h'' = None"
    by (simp add: empty_server_def checkFileExists_def)
  from progress_of_empty_file_is_NaN[OF this, of fp_none "''e.bin''" 5 "''u''"]
  show ?thesis by auto
qed

section \<open>The recorded chunk indices\<close>

lemma same_value_zero_refl: "same_value_zero v v"
  by (cases v) simp_all

lemma js_includes_member: "v \<in> set xs \<Longrightarrow> js_includes xs v"
  using same_value_zero_refl[of v] by (auto simp: js_includes_def list_ex_iff)

lemma session_inv_push:
  assumes "session_inv st" and "\<not> js_includes (uploadedChunks st) v"
    and "index_in_range v (totalChunks st)"
  shows "session_inv (st\<lparr>uploadedChunks := uploadedChunks st @ [v]\<rparr>)"
  using assms js_includes_member[of v "uploadedChunks st"]
  by (auto simp: session_inv_def)

lemma handleRequestCancel_sessions:
  "uploadStatus (handleRequestCancel s file uid uf rmf) u = Some st \<Longrightarrow> uploadStatus s u = Some st"
  by (auto simp: handleRequestCancel_def Let_def split: option.splits if_splits)

lemma handleRequestCancel_inv:
  "server_inv s \<Longrightarrow> server_inv (handleRequestCancel s file uid uf rmf)"
  unfolding server_inv_def by (blast dest: handleRequestCancel_sessions)

lemma stored_sessions: "uploadStatus (stored s file) = uploadStatus s"
  by (simp add: stored_def multer_single_def split: option.splits prod.splits)

lemma stored_inv: "server_inv (stored s file) = server_inv s"
  by (simp add: server_inv_def stored_sessions)

lemma init_upload_inv:
  "server_inv s \<Longrightarrow> server_inv (snd (init_upload s fname fsize csize fhash uuid mf))"
  by (auto simp: init_upload_def server_inv_def session_inv_def split: option.splits)

lemma upload_chunk_inv:
  assumes inv: "server_inv s"
    and rng: "\<And>st. uploadStatus s uid = Some st \<Longrightarrow> index_in_range (parseInt idx) (totalChunks st)"
  shows "server_inv (snd (upload_chunk s uid idx file rf uf rmf))"
proof (cases "uploadStatus s uid")
  case None
  with inv show ?thesis by (simp add: upload_chunk_def)
next
  case (Some st)
  from inv Some have st: "session_inv st" by (simp add: server_inv_def)
  note cancel = handleRequestCancel_inv[OF inv, of "file" uid uf rmf]
  show ?thesis
  proof (cases "\<exists>p dir data. file = Some p \<and> tempDirs s uid = Some dir \<and> tempFiles s p = Some data \<and> \<not> rf")
    case False
    with Some cancel show ?thesis
      by (auto simp: upload_chunk_def split: option.splits)
  next
    case True
    then obtain p dir data where f: "file = Some p" "tempDirs s uid = Some dir"
      "tempFiles s p = Some data" "\<not> rf" by blast
    have "session_inv (if js_includes (uploadedChunks st) (parseInt idx) then st
             else st\<lparr>uploadedChunks := uploadedChunks st @ [parseInt idx]\<rparr>)"
      using st session_inv_push[OF st _ rng[OF Some]] by simp
    with inv show ?thesis
      by (auto simp: upload_chunk_def Some f Let_def server_inv_def split: if_splits)
  qed
qed

lemma merge_upload_sessions:
  assumes "merge_upload extname s uid fname fhash fault rmf = Some (r, s')"
    and "uploadStatus s' u = Some st"
  shows "uploadStatus s u = Some st"
  using assms
  by (auto simp: merge_upload_def Let_def split: option.splits if_splits sum.splits prod.splits)

lemma merge_upload_inv:
  "server_inv s \<Longrightarrow> merge_upload extname s uid fname fhash fault rmf = Some (r, s') \<Longrightarrow> server_inv s'"
  unfolding server_inv_def by (blast dest: merge_upload_sessions)


lemma serve_inv:
  assumes inv: "server_inv s"
    and rng: "indices_in_range extname fp s [r]"
    and step: "serve extname fp s r = Some (a, s')"
  shows "server_inv s'"
proof (cases r)
  case (InitReq fname fsize csize fhash uuid mf)
  with step init_upload_inv[OF inv, of fname fsize csize fhash uuid mf] show ?thesis
    by (auto simp: split_def Let_def)
next
  case (ChunkReq uid idx fl rf uf rmf)
  from inv have "server_inv (stored s fl)" by (simp add: stored_inv)
  moreover from rng ChunkReq
  have "\<And>st. uploadStatus (stored s fl) uid = Some st \<Longrightarrow> index_in_range (parseInt idx) (totalChunks st)"
    by (simp add: stored_sessions)
  ultimately have "server_inv (snd (upload_chunk (stored s fl) uid idx (map_option fst fl) rf uf rmf))"
    by (rule upload_chunk_inv)
  with step ChunkReq show ?thesis by (auto simp: split_def Let_def)
next
  case (CancelReq uid idx fl rf uf rmf)
  from inv have "server_inv (stored s fl)" by (simp add: stored_inv)
  moreover from rng CancelReq
  have "\<And>st. uploadStatus (stored s fl) uid = Some st \<Longrightarrow> index_in_range (parseInt idx) (totalChunks st)"
    by (simp add: stored_sessions)
  ultimately have "server_inv (snd (upload_chunk (stored s fl) uid idx (map_option fst fl) rf uf rmf))"
    by (rule upload_chunk_inv)
  with step CancelReq show ?thesis
    by (auto simp: split_def Let_def close_listener_def split: option.splits)
next
  case (AbortReq left)
  with step inv show ?thesis by (auto simp: stored_inv)
next
  case (MergeReq uid fname fhash fault rmf)
  with step inv show ?thesis
    by (auto split: option.splits dest: merge_upload_inv)
next
  case (ProgressReq uid)
  with step inv show ?thesis by (auto split: option.splits)
qed

lemma run_inv:
  "server_inv s \<Longrightarrow> indices_in_range extname fp s rs \<Longrightarrow> run extname fp s rs = Some s'
     \<Longrightarrow> server_inv s'"
proof (induction rs arbitrary: s)
  case Nil
  then show ?case by simp
next
  case (Cons r rs)
  from Cons.prems(3) obtain a s1 where step: "serve extname fp s r = Some (a, s1)"
    and rest: "run extname fp s1 rs = Some s'"
    by (auto split: option.splits)
  from Cons.prems(2) step have r1: "indices_in_range extname fp s [r]"
    and rs: "indices_in_range extname fp s1 rs"
    by auto
  from serve_inv[OF Cons.prems(1) r1 step] have "server_inv s1" .
  from Cons.IH[OF this rs rest] show ?case .
qed

lemma in_range_nat:
  "index_in_range v tot \<Longrightarrow> \<exists>k. v = Num (int k) \<and> js_lt_nat k tot"
  by (cases v) (auto intro: exI[of _ "nat _"])

lemma session_size_bound:
  assumes "session_inv st" and "totalChunks st = Num t"
  shows "length (uploadedChunks st) \<le> nat t"
proof -
  have "set (uploadedChunks st) \<subseteq> (\<lambda>k. Num (int k)) ` {0..<nat t}"
  proof
    fix v assume "v \<in> set (uploadedChunks st)"
    with assms have "index_in_range v (Num t)"
      by (auto simp: session_inv_def list_all_iff)
    then obtain k where "v = Num (int k)" and "js_lt_nat k (Num t)"
      using in_range_nat by blast
    then show "v \<in> (\<lambda>k. Num (int k)) ` {0..<nat t}" by auto
  qed
  then have "card (set (uploadedChunks st)) \<le> card ((\<lambda>k. Num (int k)) ` {0..<nat t})"
    by (intro card_mono) auto
  also have "\<dots> \<le> card {0..<nat t}" by (rule card_image_le) simp
  finally show ?thesis using assms(1) by (simp add: session_inv_def distinct_card)
qed

text \<open>
  Claim C2, as the code has it. The chunk handler records \<^verbatim>\<open>parseInt(chunkIndex)\<close>
  without comparing it to \<^verbatim>\<open>totalChunks\<close>, so the invariant rests on the requests: in every
  run of requests (init, chunk, dropped connection, merge, progress) in which each chunk request
  for a registered session carries an index of \<open>[0, totalChunks)\<close>, every session of every
  state reached records each index once, records only integers of \<open>[0, totalChunks)\<close>, and
  has at most \<open>totalChunks\<close> of them.
\<close>

theorem uploaded_indices_stay_in_range:
  assumes "server_inv s"
    and "indices_in_range extname fp s rs"
    and "run extname fp s rs = Some s'"
    and "uploadStatus s' uid = Some st"
  shows "distinct (uploadedChunks st)
       \<and> (\<forall>v\<in>set (uploadedChunks st). \<exists>k. v = Num (int k) \<and> js_lt_nat k (totalChunks st))
       \<and> (\<forall>t. totalChunks st = Num t \<longrightarrow> length (uploadedChunks st) \<le> nat t)"
proof -
  from run_inv[OF assms(1-3)] assms(4) have inv: "session_inv st"
    by (simp add: server_inv_def)
  then have "distinct (uploadedChunks st)" by (simp add: session_inv_def)
  moreover from inv
  have "\<forall>v\<in>set (uploadedChunks st). \<exists>k. v = Num (int k) \<and> js_lt_nat k (totalChunks st)"
    by (auto simp: session_inv_def list_all_iff dest: in_range_nat)
  moreover have "\<forall>t. totalChunks st = Num t \<longrightarrow> length (uploadedChunks st) \<le> nat t"
    using session_size_bound[OF inv] by blast
  ultimately show ?thesis by blast
qed

lemma empty_server_inv: "server_inv empty_server"
  by (simp add: server_inv_def empty_server_def)

lemma requests_201_in_range: "indices_in_range ext_bin fp_none empty_server requests_201"
  by code_simp

lemma requests_201_run: "run ext_bin fp_none empty_server requests_201 = Some server_201"
proof -
  have "case run ext_bin fp_none empty_server requests_201 of None \<Rightarrow> False | Some s \<Rightarrow> True"
    by code_simp
  then show ?thesis
    by (auto simp: server_201_def split: option.splits)
qed

lemma server_201_recorded:
  "map_option uploadedChunks (uploadStatus server_201 ''u'') = Some [Num 2, Num 0, Num 1]"
  by code_simp

theorem uploaded_indices_stay_in_range_witness:
  "\<exists>st. uploadStatus server_201 ''u'' = Some st
      \<and> uploadedChunks st = [Num 2, Num 0, Num 1] \<and> totalChunks st = Num 3
      \<and> distinct (uploadedChunks st) \<and> length (uploadedChunks st) \<le> nat 3"
proof -
  obtain st where st: "uploadStatus server_201 ''u'' = Some st"
    and up: "uploadedChunks st = [Num 2, Num 0, Num 1]" and tot: "totalChunks st = Num 3"
    using server_201_recorded server_201_session by auto
  from uploaded_indices_stay_in_range[OF empty_server_inv requests_201_in_range requests_201_run st]
  show ?thesis using st up tot by auto
qed

lemma server_7_facts:
  "map_option fst (serve ext_bin fp_none
        (snd (init_upload empty_server ''a.bin'' 10 5 ''h'' ''u'' False))
        (ChunkReq ''u'' ''7'' (Some (''t1'', [1])) False False False)) = Some (Some ChunkOk)
   \<and> map_option totalChunks (uploadStatus server_7 ''u'') = Some (Num 2)
   \<and> map_option uploadedChunks (uploadStatus server_7 ''u'') = Some [Num 7]"
  by code_simp

text \<open>The claim as the specification states it fails: a session of two chunks accepts a chunk
  request with index 7 and records it.\<close>

theorem out_of_range_index_recorded_counterexample:
  "server_inv empty_server
   \<and> map_option fst (serve ext_bin fp_none
        (snd (init_upload empty_server ''a.bin'' 10 5 ''h'' ''u'' False))
        (ChunkReq ''u'' ''7'' (Some (''t1'', [1])) False False False)) = Some (Some ChunkOk)
   \<and> map_option totalChunks (uploadStatus server_7 ''u'') = Some (Num 2)
   \<and> map_option uploadedChunks (uploadStatus server_7 ''u'') = Some [Num 7]
   \<and> \<not> server_inv server_7"
proof -
  obtain st where st: "uploadStatus server_7 ''u'' = Some st"
    and "totalChunks st = Num 2" and "uploadedChunks st = [Num 7]"
    using server_7_facts by auto
  then have "\<not> session_inv st" by (simp add: session_inv_def)
  with st have "\<not> server_inv server_7" by (auto simp: server_inv_def)
  with empty_server_inv server_7_facts show ?thesis by simp
qed

section \<open>The client scheduler: transfers in flight\<close>

lemma uploadChunk_inv:
  "sched_inv u \<Longrightarrow> activeConnections u < concurrent u
     \<Longrightarrow> sched_inv (uploadChunk (u\<lparr>activeConnections := activeConnections u + 1\<rparr>) c todo)"
  by (auto simp: sched_inv_def uploadChunk_def)

lemma upload_loop_inv: "sched_inv u \<Longrightarrow> sched_inv (upload_loop u todo)"
  by (simp add: upload_loop_def uploadChunk_inv)

lemma upload_loop_concurrent: "concurrent (upload_loop u todo) = concurrent u"
  by (simp add: upload_loop_def uploadChunk_def)

lemma uploadChunks_inv: "sched_inv u \<Longrightarrow> sched_inv (uploadChunks u)"
  by (auto simp: uploadChunks_def Let_def upload_loop_inv mergeFile_def) (simp add: sched_inv_def)

lemma uploadChunks_concurrent: "concurrent (uploadChunks u) = concurrent u"
  by (simp add: uploadChunks_def Let_def upload_loop_concurrent mergeFile_def)

lemma init_returns_inv: "sched_inv u \<Longrightarrow> sched_inv (init_returns u b)"
  by (simp add: init_returns_def uploadChunks_inv)

lemma init_returns_concurrent: "concurrent (init_returns u b) = concurrent u"
  by (simp add: init_returns_def uploadChunks_concurrent)

lemma sched_inv_fields:
  "activeConnections u' = activeConnections u \<Longrightarrow> transfers u' = transfers u
     \<Longrightarrow> concurrent u' = concurrent u \<Longrightarrow> sched_inv u' = sched_inv u"
  by (simp add: sched_inv_def)

lemma settle_inv:
  assumes "sched_inv u" and "t \<in> set (transfers u)"
  shows "sched_inv (settle u t out)"
proof -
  define u0 where "u0 = u\<lparr>transfers := remove1 t (transfers u)\<rparr>"
  from assms(2) have "0 < length (transfers u)" by (rule length_pos_if_in_set)
  then have "int (length (transfers u) - 1) = int (length (transfers u)) - 1" by linarith
  with assms have len: "int (length (transfers u0)) = activeConnections u - 1"
    by (simp add: u0_def sched_inv_def length_remove1)
  have base: "sched_inv (v\<lparr>activeConnections := activeConnections v - 1\<rparr>)"
    if "activeConnections v = activeConnections u" "transfers v = transfers u0"
      "concurrent v = concurrent u" for v
    using that len assms(1) by (auto simp: sched_inv_def)
  show ?thesis
  proof (cases out)
    case Succeeded
    define u1 where "u1 = u0\<lparr>uploaded := (if chunk t \<in> set (uploaded u0) then uploaded u0
                                      else uploaded u0 @ [chunk t]),
                       callbacks := callbacks u0 @ [OnProgress]\<rparr>"
    have "sched_inv (u1\<lparr>activeConnections := activeConnections u1 - 1\<rparr>)"
      by (rule base) (simp_all add: u1_def u0_def)
    then show ?thesis
      by (simp add: settle_def Succeeded Let_def upload_loop_inv uploadChunks_inv
            flip: u0_def u1_def)
  next
    case Failed
    have "sched_inv ((u0\<lparr>callbacks := callbacks u0 @ [OnError (ChunkError (chunk t))]\<rparr>)
             \<lparr>activeConnections := activeConnections u0 - 1\<rparr>)"
      using base[of "u0\<lparr>callbacks := callbacks u0 @ [OnError (ChunkError (chunk t))]\<rparr>"]
      by (simp add: u0_def)
    then show ?thesis by (simp add: settle_def Failed Let_def flip: u0_def)
  next
    case Aborted
    have "sched_inv (u0\<lparr>activeConnections := activeConnections u0 - 1\<rparr>)"
      using base[of u0] by (simp add: u0_def)
    then show ?thesis by (simp add: settle_def Aborted Let_def flip: u0_def)
  qed
qed

lemma settle_concurrent: "concurrent (settle u t out) = concurrent u"
  by (cases out) (simp_all add: settle_def Let_def upload_loop_concurrent uploadChunks_concurrent)

lemma client_step_inv: "sched_inv u \<Longrightarrow> sched_inv (client_step u ev)"
proof (cases ev)
  case StartCall
  assume "sched_inv u"
  then have "sched_inv (u\<lparr>paused := False\<rparr>)" by (simp add: sched_inv_def)
  from uploadChunks_inv[OF this] \<open>sched_inv u\<close> show ?thesis
    by (auto simp: StartCall start_def Let_def) (simp_all add: sched_inv_def)
next
  case PauseCall
  assume "sched_inv u"
  then show ?thesis
    by (simp add: PauseCall pause_def Let_def sched_inv_def split: option.splits)
next
  case (InitSettled k reply)
  assume inv: "sched_inv u"
  have keep: "sched_inv v" if "activeConnections v = activeConnections u"
    "transfers v = transfers u" "concurrent v = concurrent u" for v
    using that inv by (simp add: sched_inv_def)
  show ?thesis
    by (cases reply)
       (auto simp: InitSettled Let_def inv intro!: init_returns_inv keep)
next
  case (ProgressSettled k reply)
  assume inv: "sched_inv u"
  have keep: "sched_inv v" if "activeConnections v = activeConnections u"
    "transfers v = transfers u" "concurrent v = concurrent u" for v
    using that inv by (simp add: sched_inv_def)
  show ?thesis
    by (cases reply)
       (auto simp: ProgressSettled Let_def inv intro!: init_returns_inv uploadChunks_inv keep)
next
  case (TransferSettled c out)
  assume inv: "sched_inv u"
  show ?thesis
  proof (cases "find (\<lambda>t. ctrl t = c) (transfers u)")
    case None
    with inv show ?thesis by (simp add: TransferSettled)
  next
    case (Some t)
    then have "t \<in> set (transfers u)"
      by (auto simp: find_Some_iff)
    from settle_inv[OF inv this] inv Some show ?thesis
      by (simp add: TransferSettled)
  qed
next
  case (MergeSettled ok)
  assume "sched_inv u"
  then show ?thesis by (simp add: MergeSettled Let_def sched_inv_def)
qed

lemma client_step_concurrent: "concurrent (client_step u ev) = concurrent u"
proof (cases ev)
  case (InitSettled k reply)
  then show ?thesis
    by (cases reply) (simp_all add: Let_def init_returns_concurrent)
next
  case (ProgressSettled k reply)
  then show ?thesis
    by (cases reply) (simp_all add: Let_def init_returns_concurrent uploadChunks_concurrent)
next
  case (TransferSettled c out)
  then show ?thesis by (simp add: settle_concurrent split: option.splits)
qed (simp_all add: start_def pause_def Let_def uploadChunks_concurrent split: option.splits)

lemma client_run_inv: "sched_inv u \<Longrightarrow> sched_inv (client_run u evs)"
  unfolding client_run_def
  by (induction evs arbitrary: u) (simp_all add: client_step_inv)

lemma client_run_concurrent: "concurrent (client_run u evs) = concurrent u"
  unfolding client_run_def
  by (induction evs arbitrary: u) (simp_all add: client_step_concurrent)


lemma new_uploader_inv: "sched_inv (new_uploader cs conc)"
  by (simp add: sched_inv_def new_uploader_def)

text \<open>
  Claim C8. In every state the client reaches from a new uploader, by any sequence of calls
  of \<^verbatim>\<open>start()\<close> (which is also how an upload is resumed) and \<^verbatim>\<open>pause()\<close> and of requests
  that settle, the number of chunk transfers in flight is \<^verbatim>\<open>activeConnections\<close> and is at
  most the window \<^verbatim>\<open>options.concurrent || 3\<close> (no transfer is in flight when the window is
  negative); with the default window it is at most 3.
\<close>

theorem transfers_in_flight_bounded:
  assumes "u = client_run (new_uploader cs conc) evs"
  shows "int (length (transfers u)) = activeConnections u
       \<and> int (length (transfers u)) \<le> max 0 (concurrent u)
       \<and> (0 \<le> concurrent u \<longrightarrow> int (length (transfers u)) \<le> concurrent u)
       \<and> concurrent u = (case conc of None \<Rightarrow> 3 | Some c \<Rightarrow> if c = 0 then 3 else c)
       \<and> (conc = None \<longrightarrow> length (transfers u) \<le> 3)"
proof -
  from client_run_inv[OF new_uploader_inv, of cs conc evs] assms
  have inv: "sched_inv u" by simp
  have c: "concurrent u = (case conc of None \<Rightarrow> 3 | Some c \<Rightarrow> if c = 0 then 3 else c)"
    by (simp add: assms client_run_concurrent new_uploader_def)
  from inv c show ?thesis by (auto simp: sched_inv_def)
qed

lemma uploader_two_flight: "map ctrl (transfers uploader_two) = [1, 2]"
  by code_simp

theorem transfers_in_flight_bounded_witness:
  "length (transfers uploader_two) = 2 \<and> activeConnections uploader_two = 2
   \<and> concurrent uploader_two = 2
   \<and> int (length (transfers uploader_two)) \<le> max 0 (concurrent uploader_two)"
proof -
  have "length (transfers uploader_two) = 2"
    using arg_cong[OF uploader_two_flight, of length] by simp
  with transfers_in_flight_bounded[OF uploader_two_def]
  show ?thesis by simp
qed

section \<open>The client scheduler: pausing\<close>

text \<open>What \<^verbatim>\<open>pause()\<close> does achieve: while the uploader is paused, no event but a call of
  \<^verbatim>\<open>start()\<close> starts a transfer, and a transfer that settles as aborted makes no callback.\<close>

lemma upload_loop_paused: "paused u \<Longrightarrow> upload_loop u todo = u"
  by (simp add: upload_loop_def)

lemma uploadChunks_paused: "paused u \<Longrightarrow> uploadChunks u = u"
  by (simp add: uploadChunks_def)

lemma paused_starts_no_transfer:
  assumes "paused u" and "ev \<noteq> StartCall"
  shows "paused (client_step u ev) \<and> set (transfers (client_step u ev)) \<subseteq> set (transfers u)"
proof (cases ev)
  case StartCall
  with assms show ?thesis by simp
next
  case PauseCall
  then show ?thesis by (simp add: pause_def Let_def split: option.splits)
next
  case (InitSettled k reply)
  with assms show ?thesis
    by (cases reply) (simp_all add: Let_def init_returns_def uploadChunks_paused)
next
  case (ProgressSettled k reply)
  with assms show ?thesis
    by (cases reply) (simp_all add: Let_def init_returns_def uploadChunks_paused)
next
  case (TransferSettled c out)
  with assms show ?thesis
    by (cases out)
       (auto simp: settle_def Let_def upload_loop_paused split: option.splits
          dest: subsetD[OF set_remove1_subset])
next
  case (MergeSettled ok)
  with assms show ?thesis by (simp add: Let_def)
qed

lemma aborted_transfer_makes_no_callback:
  "callbacks (client_step u (TransferSettled c Aborted)) = callbacks u"
  by (simp add: settle_def Let_def split: option.splits)

text \<open>What it does not achieve: one call of \<^verbatim>\<open>pause()\<close> aborts at most one controller,
  however many transfers are in flight.\<close>

lemma pause_aborts_at_most_one:
  "aborted (pause u) = (case abortController u of None \<Rightarrow> aborted u | Some c \<Rightarrow> c # aborted u)"
  by (simp add: pause_def Let_def split: option.splits)

text \<open>
  Claim C7 on the code. \<^verbatim>\<open>_uploadChunk\<close> stores each new controller in the one field
  \<^verbatim>\<open>this.abortController\<close>, and \<^verbatim>\<open>pause()\<close> aborts the controller that field holds. In
  the sample run two transfers are in flight when \<^verbatim>\<open>pause()\<close> is called, with controllers 1
  and 2; only controller 2 is aborted, and the transfer of controller 1 goes on to succeed and
  to report progress while the uploader is paused.
\<close>

theorem pause_aborts_last_controller_only:
  "paused uploader_paused
   \<and> map ctrl (transfers uploader_paused) = [1, 2]
   \<and> aborted uploader_paused = [2]
   \<and> uploaded (client_step uploader_paused (TransferSettled 1 Succeeded)) = [0, 1]
   \<and> callbacks (client_step uploader_paused (TransferSettled 1 Succeeded)) = [OnProgress, OnProgress]
   \<and> client_step uploader_paused (TransferSettled 1 Aborted) = uploader_paused"
  by code_simp

end
